theory Spec2Isabelle
  imports Complex_Main "HOL-Library.AList" "HOL-Library.Multiset"
begin

section \<open>The resource manager and real-time scheduler of \<^verbatim>\<open>arona_resource_manager.py\<close>\<close>

text \<open>
  The module keeps a pool of hardware resources (\<^verbatim>\<open>ResourceManager\<close>), tasks that ask
  for a share of each resource (\<^verbatim>\<open>AGI_Task\<close>) and a scheduler that admits queued tasks
  against the pool (\<^verbatim>\<open>RealTimeScheduler\<close>).

  Modelling decisions:
  \<^item> Python's \<^verbatim>\<open>float\<close> quantities are rationals (\<open>rat\<close>); infinities and NaN are not
    modelled. The functions are first given with exact arithmetic: this is the control
    flow of the module, and every comparison is made on the stored fields. The functions
    of the pool are then given again with every sum, difference and product rounded by a
    parameter \<open>rnd\<close> (suffix \<open>_fp\<close>). \<open>round_double\<close> is the rounding of IEEE binary64
    to nearest, ties to even, so the instance \<open>rnd = round_double\<close> computes what Python
    computes on finite doubles, and the instance \<open>rnd = (\<lambda>x. x)\<close> is the exact one.
  \<^item> A \<^verbatim>\<open>dict\<close> that is only looked up by key is a map; a \<^verbatim>\<open>dict\<close> that is iterated is an
    association list in insertion order (\<open>AList.update\<close> overwrites in place and appends a
    new key at the end, as Python does).
  \<^item> Task objects are shared between the caller, the queue and the running set and are
    mutated in place, so the scheduler's state carries an object store from references to
    task records, and the queue holds references.
  \<^item> The clock and the random generator are parameters (\<open>env\<close>).
  \<^item> Exceptions are values of type \<open>py_error\<close>: a function that can raise returns
    \<open>py_error + 'a\<close>.
  \<^item> Console output is modelled for \<^verbatim>\<open>allocate_resources\<close> only, as a list of events.
\<close>

subsection \<open>Configuration\<close>

type_synonym py_float = rat

datatype py_error = NameError string | KeyError string | ValueError string

definition TOTAL_CPU_CORES :: py_float where
  "TOTAL_CPU_CORES = 8"

definition TOTAL_GPU_POWER :: py_float where
  "TOTAL_GPU_POWER = 100"

definition TOTAL_RAM_GB :: py_float where
  "TOTAL_RAM_GB = 16"

definition MAX_ALLOCATION_PER_TASK :: py_float where
  "MAX_ALLOCATION_PER_TASK = 0.50"

datatype TaskPriority = CRITICAL | REAL_TIME | HIGH | MEDIUM | LOW

fun priority_value :: "TaskPriority \<Rightarrow> int" where
  "priority_value CRITICAL = 5"
| "priority_value REAL_TIME = 4"
| "priority_value HIGH = 3"
| "priority_value MEDIUM = 2"
| "priority_value LOW = 1"

subsection \<open>The names the module binds\<close>

text \<open>
  The module's import statements bind \<^verbatim>\<open>time\<close>, \<^verbatim>\<open>random\<close>, the four \<^verbatim>\<open>typing\<close> names,
  \<^verbatim>\<open>deque\<close> and \<^verbatim>\<open>Enum\<close>; its top level binds the constants, the classes and the demo
  function; the interpreter binds the module attributes with double underscores. No other
  statement of the module binds a global name.
\<close>

definition module_globals :: "string list" where
  "module_globals =
     [''__name__'', ''__doc__'', ''__package__'', ''__loader__'', ''__spec__'', ''__file__'',
      ''__cached__'', ''__builtins__'',
      ''time'', ''random'', ''Dict'', ''List'', ''Any'', ''Optional'', ''deque'', ''Enum'',
      ''ARONA_CORE_ID'', ''TOTAL_CPU_CORES'', ''TOTAL_GPU_POWER'', ''TOTAL_RAM_GB'',
      ''MAX_ALLOCATION_PER_TASK'', ''TaskPriority'', ''HardwareStatus'', ''AGI_Task'',
      ''ResourceManager'', ''RealTimeScheduler'', ''run_arona_resource_system'']"

text \<open>
  The names of Python's \<^verbatim>\<open>builtins\<close> module, all of them (CPython 3.11; no version of
  Python 3 has a builtin called \<^verbatim>\<open>uuid\<close>).
\<close>

definition python_builtins :: "string list" where
  "python_builtins =
     [''ArithmeticError'', ''AssertionError'', ''AttributeError'', ''BaseException'',
      ''BaseExceptionGroup'', ''BlockingIOError'', ''BrokenPipeError'', ''BufferError'',
      ''BytesWarning'', ''ChildProcessError'', ''ConnectionAbortedError'',
      ''ConnectionError'', ''ConnectionRefusedError'', ''ConnectionResetError'',
      ''DeprecationWarning'', ''EOFError'', ''Ellipsis'', ''EncodingWarning'',
      ''EnvironmentError'', ''Exception'', ''ExceptionGroup'', ''False'',
      ''FileExistsError'', ''FileNotFoundError'', ''FloatingPointError'',
      ''FutureWarning'', ''GeneratorExit'', ''IOError'', ''ImportError'',
      ''ImportWarning'', ''IndentationError'', ''IndexError'', ''InterruptedError'',
      ''IsADirectoryError'', ''KeyError'', ''KeyboardInterrupt'', ''LookupError'',
      ''MemoryError'', ''ModuleNotFoundError'', ''NameError'', ''None'',
      ''NotADirectoryError'', ''NotImplemented'', ''NotImplementedError'', ''OSError'',
      ''OverflowError'', ''PendingDeprecationWarning'', ''PermissionError'',
      ''ProcessLookupError'', ''RecursionError'', ''ReferenceError'', ''ResourceWarning'',
      ''RuntimeError'', ''RuntimeWarning'', ''StopAsyncIteration'', ''StopIteration'',
      ''SyntaxError'', ''SyntaxWarning'', ''SystemError'', ''SystemExit'', ''TabError'',
      ''TimeoutError'', ''True'', ''TypeError'', ''UnboundLocalError'',
      ''UnicodeDecodeError'', ''UnicodeEncodeError'', ''UnicodeError'',
      ''UnicodeTranslateError'', ''UnicodeWarning'', ''UserWarning'', ''ValueError'',
      ''Warning'', ''ZeroDivisionError'', ''__build_class__'', ''__debug__'', ''__doc__'',
      ''__import__'', ''__loader__'', ''__name__'', ''__package__'', ''__spec__'', ''abs'',
      ''aiter'', ''all'', ''anext'', ''any'', ''ascii'', ''bin'', ''bool'', ''breakpoint'',
      ''bytearray'', ''bytes'', ''callable'', ''chr'', ''classmethod'', ''compile'',
      ''complex'', ''copyright'', ''credits'', ''delattr'', ''dict'', ''dir'', ''divmod'',
      ''enumerate'', ''eval'', ''exec'', ''exit'', ''filter'', ''float'', ''format'',
      ''frozenset'', ''getattr'', ''globals'', ''hasattr'', ''hash'', ''help'', ''hex'',
      ''id'', ''input'', ''int'', ''isinstance'', ''issubclass'', ''iter'', ''len'',
      ''license'', ''list'', ''locals'', ''map'', ''max'', ''memoryview'', ''min'',
      ''next'', ''object'', ''oct'', ''open'', ''ord'', ''pow'', ''print'', ''property'',
      ''quit'', ''range'', ''repr'', ''reversed'', ''round'', ''set'', ''setattr'',
      ''slice'', ''sorted'', ''staticmethod'', ''str'', ''sum'', ''super'', ''tuple'',
      ''type'', ''vars'', ''zip'']"

text \<open>
  Reading a global name at run time: the name is looked up among the globals of the
  module and then among the builtins; a name found in neither raises \<^verbatim>\<open>NameError\<close>.
\<close>

definition load_global :: "string \<Rightarrow> py_error + unit" where
  "load_global n =
     (if n \<in> set module_globals \<or> n \<in> set python_builtins then Inr ()
      else Inl (NameError n))"

subsection \<open>HardwareStatus\<close>

record HardwareStatus =
  hw_name :: string
  hw_total :: py_float
  hw_unit :: string
  allocated :: py_float
  available :: py_float
  is_external :: bool

definition HardwareStatus_init :: "string \<Rightarrow> py_float \<Rightarrow> string \<Rightarrow> HardwareStatus" where
  "HardwareStatus_init name total_capacity unit =
     \<lparr>hw_name = name, hw_total = total_capacity, hw_unit = unit, allocated = 0,
      available = total_capacity - 0, is_external = False\<rparr>"

definition update_usage :: "py_float \<Rightarrow> HardwareStatus \<Rightarrow> HardwareStatus" where
  "update_usage usage hw =
     hw\<lparr>allocated := max 0 usage, available := hw_total hw - max 0 usage\<rparr>"

subsection \<open>AGI\_Task\<close>

record AGI_Task =
  task_id :: string
  task_name :: string
  priority :: TaskPriority
  complexity :: py_float
  resource_request :: "(string \<times> py_float) list"
  creation_time :: py_float
  status :: string
  start_time :: py_float

definition calculate_request :: "py_float \<Rightarrow> (string \<times> py_float) list" where
  "calculate_request cplx =
     (let cpu_req = cplx * 0.2;
          gpu_req = cplx * 0.1;
          ram_req = cplx * 0.5;
          cpu_req' = min (cpu_req * TOTAL_CPU_CORES) (MAX_ALLOCATION_PER_TASK * TOTAL_CPU_CORES);
          gpu_req' = min (gpu_req * TOTAL_GPU_POWER) (MAX_ALLOCATION_PER_TASK * TOTAL_GPU_POWER);
          ram_req' = min (ram_req * TOTAL_RAM_GB) (MAX_ALLOCATION_PER_TASK * TOTAL_RAM_GB)
      in [(''CPU'', cpu_req'), (''GPU'', gpu_req'), (''RAM'', ram_req')])"

text \<open>
  The constructor. Its first statement reads the global \<^verbatim>\<open>uuid\<close>; \<open>uuid4\<close> stands for the
  string \<^verbatim>\<open>str(uuid.uuid4())\<close> would give and \<open>now\<close> for the reading of \<^verbatim>\<open>time.time()\<close>.
\<close>

definition AGI_Task_init ::
  "string \<Rightarrow> py_float \<Rightarrow> string \<Rightarrow> TaskPriority \<Rightarrow> py_float \<Rightarrow> py_error + AGI_Task" where
  "AGI_Task_init uuid4 now name prio cplx =
     (case load_global ''uuid'' of
        Inl e \<Rightarrow> Inl e
      | Inr _ \<Rightarrow>
          Inr \<lparr>task_id = uuid4, task_name = name, priority = prio, complexity = cplx,
               resource_request = calculate_request cplx, creation_time = now,
               status = ''Pending'', start_time = 0\<rparr>)"

subsection \<open>ResourceManager\<close>

record ResourceManager =
  hardware :: "string \<rightharpoonup> HardwareStatus"
  external_hardware :: "string \<rightharpoonup> HardwareStatus"

definition ResourceManager_init :: ResourceManager where
  "ResourceManager_init =
     \<lparr>hardware =
        [''CPU'' \<mapsto> HardwareStatus_init ''CPU_Internal'' TOTAL_CPU_CORES ''Cores'',
         ''GPU'' \<mapsto> HardwareStatus_init ''GPU_Internal'' TOTAL_GPU_POWER ''%'',
         ''RAM'' \<mapsto> HardwareStatus_init ''RAM_Internal'' TOTAL_RAM_GB ''GB''],
      external_hardware = Map.empty\<rparr>"

text \<open>Python's \<^verbatim>\<open>sub in s\<close> on strings: \<open>sub\<close> occurs in \<open>s\<close> as a contiguous piece.\<close>

fun starts_with :: "string \<Rightarrow> string \<Rightarrow> bool" where
  "starts_with [] s = True"
| "starts_with (c # cs) [] = False"
| "starts_with (c # cs) (d # ds) = (c = d \<and> starts_with cs ds)"

fun str_contains :: "string \<Rightarrow> string \<Rightarrow> bool" where
  "str_contains sub [] = starts_with sub []"
| "str_contains sub (d # ds) = (starts_with sub (d # ds) \<or> str_contains sub ds)"

text \<open>
  \<^verbatim>\<open>add_external_hardware\<close>: a name already present is refused; otherwise the device is
  recorded among the external hardware, and a name containing \<^verbatim>\<open>GPU\<close> (else \<^verbatim>\<open>RAM\<close>) adds
  its capacity to the total of that internal entry and renames the entry. Only the fields
  \<^verbatim>\<open>total\<close> and \<^verbatim>\<open>name\<close> are written.
\<close>

definition add_external_hardware ::
  "string \<Rightarrow> py_float \<Rightarrow> string \<Rightarrow> ResourceManager \<Rightarrow> py_error + ResourceManager" where
  "add_external_hardware name capacity unit rm =
     (if name \<in> dom (hardware rm) \<or> name \<in> dom (external_hardware rm) then Inr rm
      else
        let hw = (HardwareStatus_init name capacity unit)\<lparr>is_external := True\<rparr>;
            rm1 = rm\<lparr>external_hardware := (external_hardware rm)(name \<mapsto> hw)\<rparr>
        in if str_contains ''GPU'' name then
             (case hardware rm1 ''GPU'' of
                None \<Rightarrow> Inl (KeyError ''GPU'')
              | Some g \<Rightarrow>
                  Inr (rm1\<lparr>hardware := (hardware rm1)(''GPU'' \<mapsto>
                         g\<lparr>hw_total := hw_total g + capacity, hw_name := ''GPU_Hybrid''\<rparr>)\<rparr>))
           else if str_contains ''RAM'' name then
             (case hardware rm1 ''RAM'' of
                None \<Rightarrow> Inl (KeyError ''RAM'')
              | Some r \<Rightarrow>
                  Inr (rm1\<lparr>hardware := (hardware rm1)(''RAM'' \<mapsto>
                         r\<lparr>hw_total := hw_total r + capacity, hw_name := ''RAM_Hybrid''\<rparr>)\<rparr>))
           else Inr rm1)"

text \<open>
  \<^verbatim>\<open>allocate_resources\<close>. The lines it prints are returned as a list of events; the other
  functions' console output is not modelled.
\<close>

datatype rm_event =
  RM_WARNING_unknown_resource string
| RM_ALLOCATED string py_float string string

text \<open>
  The first loop: every requested kind the pool tracks is compared with the stored
  \<^verbatim>\<open>available\<close> field; the first kind that does not fit ends the loop (\<^verbatim>\<open>break\<close>). A kind
  the pool does not track prints a warning and is left out of \<open>required\<close>.
\<close>

fun check_resources ::
  "(string \<rightharpoonup> HardwareStatus) \<Rightarrow> (string \<times> py_float) list \<Rightarrow> (string \<times> py_float) list \<Rightarrow>
   rm_event list \<Rightarrow> bool \<times> (string \<times> py_float) list \<times> rm_event list" where
  "check_resources hwm [] required out = (True, required, out)"
| "check_resources hwm ((res_name, req_amount) # rest) required out =
     (case hwm res_name of
        Some hw \<Rightarrow>
          if available hw < req_amount then (False, required, out)
          else check_resources hwm rest (AList.update res_name req_amount required) out
      | None \<Rightarrow>
          check_resources hwm rest required (out @ [RM_WARNING_unknown_resource res_name]))"

text \<open>
  The second loop. \<^verbatim>\<open>self.hardware[res_name]\<close> cannot miss: \<open>required\<close> only holds kinds
  that the first loop found in the pool (lemma \<open>check_resources_tracked\<close>), so the \<open>None\<close>
  branch is never taken.
\<close>

fun apply_allocation ::
  "string \<Rightarrow> (string \<times> py_float) list \<Rightarrow> (string \<rightharpoonup> HardwareStatus) \<times> rm_event list \<Rightarrow>
   (string \<rightharpoonup> HardwareStatus) \<times> rm_event list" where
  "apply_allocation tname [] acc = acc"
| "apply_allocation tname ((res_name, req_amount) # rest) (hwm, out) =
     (case hwm res_name of
        Some hw \<Rightarrow>
          apply_allocation tname rest
            (hwm(res_name \<mapsto> update_usage (allocated hw + req_amount) hw),
             out @ [RM_ALLOCATED tname req_amount (hw_unit hw) res_name])
      | None \<Rightarrow> apply_allocation tname rest (hwm, out))"

definition allocate_resources ::
  "ResourceManager \<Rightarrow> AGI_Task \<Rightarrow> ResourceManager \<times> AGI_Task \<times> bool \<times> rm_event list" where
  "allocate_resources rm task =
     (case check_resources (hardware rm) (resource_request task) [] [] of
        (can_allocate, required_resources, out) \<Rightarrow>
          if can_allocate then
            (case apply_allocation (task_name task) required_resources (hardware rm, out) of
               (hwm, out') \<Rightarrow> (rm\<lparr>hardware := hwm\<rparr>, task\<lparr>status := ''Running''\<rparr>, True, out'))
          else (rm, task\<lparr>status := ''Queued_Blocked''\<rparr>, False, out))"

fun release_all ::
  "(string \<times> py_float) list \<Rightarrow> (string \<rightharpoonup> HardwareStatus) \<Rightarrow> (string \<rightharpoonup> HardwareStatus)" where
  "release_all [] hwm = hwm"
| "release_all ((res_name, req_amount) # rest) hwm =
     (case hwm res_name of
        Some hw \<Rightarrow> release_all rest (hwm(res_name \<mapsto> update_usage (allocated hw - req_amount) hw))
      | None \<Rightarrow> release_all rest hwm)"

definition free_resources :: "ResourceManager \<Rightarrow> AGI_Task \<Rightarrow> ResourceManager" where
  "free_resources rm task =
     (if status task \<noteq> ''Finished'' then rm
      else rm\<lparr>hardware := release_all (resource_request task) (hardware rm)\<rparr>)"

subsection \<open>RealTimeScheduler\<close>

text \<open>
  A reference names a task object. The scheduler's three containers hold references; the
  store gives the current fields of each object. \<^verbatim>\<open>running_tasks\<close> is a \<^verbatim>\<open>dict\<close> from task
  id to task, iterated in insertion order.
\<close>

type_synonym ref = nat

record RealTimeScheduler =
  store :: "ref \<Rightarrow> AGI_Task"
  rm :: ResourceManager
  task_queue :: "ref list"
  running_tasks :: "(string \<times> ref) list"
  finished_tasks :: "ref list"

text \<open>
  What a dispatch cycle reads from outside: the reading of \<^verbatim>\<open>time.time()\<close> and the draw of
  \<^verbatim>\<open>random.random()\<close> taken while the running task with a given id is examined, and the
  reading of \<^verbatim>\<open>time.time()\<close> taken when the task with a given id is admitted.
\<close>

record env =
  reap_clock :: "string \<Rightarrow> py_float"
  reap_random :: "string \<Rightarrow> py_float"
  admit_clock :: "string \<Rightarrow> py_float"

definition RealTimeScheduler_init :: "(ref \<Rightarrow> AGI_Task) \<Rightarrow> ResourceManager \<Rightarrow> RealTimeScheduler" where
  "RealTimeScheduler_init objs pool =
     \<lparr>store = objs, rm = pool, task_queue = [], running_tasks = [], finished_tasks = []\<rparr>"

text \<open>
  \<^verbatim>\<open>sorted(xs, key=key, reverse=True)\<close>: a stable sort into descending order of the key
  (Python keeps the original order of elements with equal keys also when \<^verbatim>\<open>reverse\<close> is
  set). \<open>sort_key\<close> is the stable insertion sort of the list library.
\<close>

definition sorted_reverse :: "('a \<Rightarrow> int) \<Rightarrow> 'a list \<Rightarrow> 'a list" where
  "sorted_reverse key xs = sort_key (\<lambda>x. - key x) xs"

definition submit_task :: "ref \<Rightarrow> RealTimeScheduler \<Rightarrow> RealTimeScheduler" where
  "submit_task task s =
     s\<lparr>task_queue :=
         sorted_reverse (\<lambda>t. priority_value (priority (store s t))) (task_queue s @ [task])\<rparr>"

text \<open>
  The first loop of \<^verbatim>\<open>dispatch_tasks\<close>, over a snapshot of the running set: a running
  task whose completion test holds is marked finished, its resources are released, and it
  moves to the finished list. \<^verbatim>\<open>del self.running_tasks[task_id]\<close> raises \<^verbatim>\<open>KeyError\<close> when
  the key is absent.
\<close>

fun reap_finished ::
  "env \<Rightarrow> (string \<times> ref) list \<Rightarrow> RealTimeScheduler \<Rightarrow> py_error + RealTimeScheduler" where
  "reap_finished e [] s = Inr s"
| "reap_finished e ((tid, t) # rest) s =
     (if reap_clock e tid - start_time (store s t) > 0.5 \<or> reap_random e tid < 0.1 then
        let task = (store s t)\<lparr>status := ''Finished''\<rparr>
        in if tid \<in> fst ` set (running_tasks s) then
             reap_finished e rest
               (s\<lparr>store := (store s)(t := task),
                  rm := free_resources (rm s) task,
                  finished_tasks := finished_tasks s @ [t],
                  running_tasks := AList.delete tid (running_tasks s)\<rparr>)
           else Inl (KeyError tid)
      else reap_finished e rest s)"

text \<open>\<^verbatim>\<open>xs[:n]\<close>: a negative \<open>n\<close> counts from the end.\<close>

definition slice_to :: "int \<Rightarrow> 'a list \<Rightarrow> 'a list" where
  "slice_to n xs = (if n < 0 then take (nat (int (length xs) + n)) xs else take (nat n) xs)"

text \<open>
  The second loop, over a snapshot of the head of the queue, with the local counter
  \<^verbatim>\<open>tasks_dispatched\<close>. \<^verbatim>\<open>self.task_queue.remove(task)\<close> removes the first occurrence and
  raises \<^verbatim>\<open>ValueError\<close> when there is none.
\<close>

fun admit_loop ::
  "env \<Rightarrow> ref list \<Rightarrow> nat \<Rightarrow> RealTimeScheduler \<Rightarrow> py_error + RealTimeScheduler \<times> nat" where
  "admit_loop e [] tasks_dispatched s = Inr (s, tasks_dispatched)"
| "admit_loop e (t # rest) tasks_dispatched s =
     (if tasks_dispatched \<ge> 2 then Inr (s, tasks_dispatched)
      else if status (store s t) = ''Pending'' \<or> status (store s t) = ''Queued_Blocked'' then
        (case allocate_resources (rm s) (store s t) of
           (pool, task, ok, out) \<Rightarrow>
             if ok then
               if t \<in> set (task_queue s) then
                 admit_loop e rest (tasks_dispatched + 1)
                   (s\<lparr>store := (store s)(t := task\<lparr>start_time := admit_clock e (task_id task)\<rparr>),
                      rm := pool,
                      running_tasks := AList.update (task_id task) t (running_tasks s),
                      task_queue := remove1 t (task_queue s)\<rparr>)
               else Inl (ValueError ''deque.remove(x): x not in deque'')
             else
               admit_loop e rest tasks_dispatched (s\<lparr>store := (store s)(t := task), rm := pool\<rparr>))
      else admit_loop e rest tasks_dispatched s)"

text \<open>
  The body of \<^verbatim>\<open>dispatch_tasks\<close>, with the final value of its local counter;
  \<^verbatim>\<open>dispatch_tasks\<close> gives the new state (the report it returns in Python is a read-only
  view of the pool).
\<close>

definition dispatch_cycle ::
  "env \<Rightarrow> int \<Rightarrow> RealTimeScheduler \<Rightarrow> py_error + RealTimeScheduler \<times> nat" where
  "dispatch_cycle e max_tasks_to_check s =
     (case reap_finished e (running_tasks s) s of
        Inl err \<Rightarrow> Inl err
      | Inr s1 \<Rightarrow> admit_loop e (slice_to max_tasks_to_check (task_queue s1)) 0 s1)"

definition dispatch_tasks :: "env \<Rightarrow> int \<Rightarrow> RealTimeScheduler \<Rightarrow> py_error + RealTimeScheduler" where
  "dispatch_tasks e max_tasks_to_check s =
     (case dispatch_cycle e max_tasks_to_check s of
        Inl err \<Rightarrow> Inl err
      | Inr (s', tasks_dispatched) \<Rightarrow> Inr s')"

section \<open>Notions used in the statements\<close>

subsection \<open>Requests against a pool\<close>

text \<open>
  The entries of a request whose kind the pool tracks, and those whose kind it does not
  track.
\<close>

definition tracked ::
  "(string \<rightharpoonup> HardwareStatus) \<Rightarrow> (string \<times> py_float) list \<Rightarrow> (string \<times> py_float) list" where
  "tracked hwm reqs = filter (\<lambda>(k, v). hwm k \<noteq> None) reqs"

definition untracked ::
  "(string \<rightharpoonup> HardwareStatus) \<Rightarrow> (string \<times> py_float) list \<Rightarrow> (string \<times> py_float) list" where
  "untracked hwm reqs = filter (\<lambda>(k, v). hwm k = None) reqs"

text \<open>
  A request fits when no entry of a tracked kind exceeds the stored \<^verbatim>\<open>available\<close> field of
  that kind.
\<close>

definition fits :: "(string \<rightharpoonup> HardwareStatus) \<Rightarrow> (string \<times> py_float) list \<Rightarrow> bool" where
  "fits hwm reqs =
     (\<forall>(k, v) \<in> set reqs. case hwm k of None \<Rightarrow> True | Some hw \<Rightarrow> \<not> available hw < v)"

text \<open>
  The first loop of \<^verbatim>\<open>allocate_resources\<close> stops at the first entry of a tracked kind that
  does not fit: \<open>scanned\<close> are the entries it passes before that.
\<close>

definition entry_fits :: "(string \<rightharpoonup> HardwareStatus) \<Rightarrow> string \<times> py_float \<Rightarrow> bool" where
  "entry_fits hwm = (\<lambda>(k, v). case hwm k of None \<Rightarrow> True | Some hw \<Rightarrow> \<not> available hw < v)"

definition scanned ::
  "(string \<rightharpoonup> HardwareStatus) \<Rightarrow> (string \<times> py_float) list \<Rightarrow> (string \<times> py_float) list" where
  "scanned hwm reqs = takeWhile (entry_fits hwm) reqs"

text \<open>
  The pool after every entry of a request has been reserved (\<open>reserve_each\<close>) or released
  (\<open>release_each\<close>): each tracked kind that the request names has had \<^verbatim>\<open>update_usage\<close>
  called once with its allocated amount plus (minus) the requested amount; every other
  kind is as before, and no kind is added.
\<close>

definition reserve_each ::
  "(string \<times> py_float) list \<Rightarrow> (string \<rightharpoonup> HardwareStatus) \<Rightarrow> (string \<rightharpoonup> HardwareStatus)" where
  "reserve_each reqs hwm =
     (\<lambda>k. case hwm k of
             None \<Rightarrow> None
           | Some hw \<Rightarrow>
               (case map_of reqs k of
                  None \<Rightarrow> Some hw
                | Some v \<Rightarrow> Some (update_usage (allocated hw + v) hw)))"

definition release_each ::
  "(string \<times> py_float) list \<Rightarrow> (string \<rightharpoonup> HardwareStatus) \<Rightarrow> (string \<rightharpoonup> HardwareStatus)" where
  "release_each reqs hwm =
     (\<lambda>k. case hwm k of
             None \<Rightarrow> None
           | Some hw \<Rightarrow>
               (case map_of reqs k of
                  None \<Rightarrow> Some hw
                | Some v \<Rightarrow> Some (update_usage (allocated hw - v) hw)))"

subsection \<open>The accounting invariant\<close>

text \<open>
  The invariant of one resource: the allocated amount lies between 0 and the total, and
  the stored \<^verbatim>\<open>available\<close> field does not exceed what is left (it is smaller after a
  hot-plug, which raises the total only).
\<close>

definition hw_ok :: "HardwareStatus \<Rightarrow> bool" where
  "hw_ok hw = (0 \<le> allocated hw \<and> allocated hw \<le> hw_total hw \<and>
               available hw \<le> hw_total hw - allocated hw)"

definition pool_ok :: "(string \<rightharpoonup> HardwareStatus) \<Rightarrow> bool" where
  "pool_ok hwm = (\<forall>k hw. hwm k = Some hw \<longrightarrow> hw_ok hw)"

text \<open>
  A caller of the pool: hot-plugging a device, reserving for a task
  (\<^verbatim>\<open>allocate_resources\<close>) and releasing for a task (\<^verbatim>\<open>free_resources\<close>). A sequence of
  calls stops at the first exception.
\<close>

datatype pool_call = Attach string py_float string | Reserve AGI_Task | Release AGI_Task

fun do_call :: "pool_call \<Rightarrow> ResourceManager \<Rightarrow> py_error + ResourceManager" where
  "do_call (Attach name capacity unit) p = add_external_hardware name capacity unit p"
| "do_call (Reserve t) p = Inr (fst (allocate_resources p t))"
| "do_call (Release t) p = Inr (free_resources p t)"

fun run_calls :: "pool_call list \<Rightarrow> ResourceManager \<Rightarrow> py_error + ResourceManager" where
  "run_calls [] p = Inr p"
| "run_calls (c # cs) p = (case do_call c p of Inl e \<Rightarrow> Inl e | Inr p' \<Rightarrow> run_calls cs p')"

text \<open>
  The amounts a call adds to a total or takes off an allocation are quantities: a
  hot-plugged capacity and a released amount are not negative.
\<close>

fun call_ok :: "pool_call \<Rightarrow> bool" where
  "call_ok (Attach name capacity unit) = (0 \<le> capacity)"
| "call_ok (Reserve t) = True"
| "call_ok (Release t) = list_all (\<lambda>(k, v). 0 \<le> v) (resource_request t)"

text \<open>
  The capacity each kind has in the pool as constructed, and the invariant of the pool:
  every resource satisfies its invariant, and the three kinds are tracked with at least
  their capacity as constructed.
\<close>

definition baseline :: "string \<Rightarrow> py_float option" where
  "baseline kind =
     (if kind = ''CPU'' then Some TOTAL_CPU_CORES
      else if kind = ''GPU'' then Some TOTAL_GPU_POWER
      else if kind = ''RAM'' then Some TOTAL_RAM_GB
      else None)"

definition pool_inv :: "ResourceManager \<Rightarrow> bool" where
  "pool_inv p =
     (pool_ok (hardware p) \<and>
      (\<forall>kind b. baseline kind = Some b \<longrightarrow> (\<exists>hw. hardware p kind = Some hw \<and> b \<le> hw_total hw)))"

text \<open>
  For the totals alone only hot-plugged capacities matter: \<open>attach_ok\<close> asks no more
  than that they are not negative, and \<open>totals_inv\<close> says that the three kinds are
  tracked with at least their capacity as constructed.
\<close>

fun attach_ok :: "pool_call \<Rightarrow> bool" where
  "attach_ok (Attach name capacity unit) = (0 \<le> capacity)"
| "attach_ok (Reserve t) = True"
| "attach_ok (Release t) = True"

definition totals_inv :: "ResourceManager \<Rightarrow> bool" where
  "totals_inv p =
     (\<forall>kind b. baseline kind = Some b \<longrightarrow> (\<exists>hw. hardware p kind = Some hw \<and> b \<le> hw_total hw))"

subsection \<open>The request derivation of the specification\<close>



subsection \<open>The scheduler\<close>

text \<open>The key \<^verbatim>\<open>submit_task\<close> sorts by: the value of the task's priority.\<close>

definition queue_key :: "RealTimeScheduler \<Rightarrow> ref \<Rightarrow> int" where
  "queue_key s t = priority_value (priority (store s t))"

text \<open>The tasks the admission loop tries: those whose status is pending or blocked.\<close>

definition awaiting :: "RealTimeScheduler \<Rightarrow> ref \<Rightarrow> bool" where
  "awaiting s t = (status (store s t) = ''Pending'' \<or> status (store s t) = ''Queued_Blocked'')"

subsection \<open>Examples\<close>

text \<open>A task record for examples, with the fields the constructor sets and a given request.\<close>

definition mk_task :: "string \<Rightarrow> TaskPriority \<Rightarrow> (string \<times> py_float) list \<Rightarrow> AGI_Task" where
  "mk_task tid prio req =
     \<lparr>task_id = tid, task_name = tid, priority = prio, complexity = 0, resource_request = req,
      creation_time = 0, status = ''Pending'', start_time = 0\<rparr>"

text \<open>An object store for examples: reference \<open>i\<close> names the \<open>i\<close>-th task of a list.\<close>

definition tasks_store :: "AGI_Task list \<Rightarrow> ref \<Rightarrow> AGI_Task" where
  "tasks_store ts r = (if r < length ts then ts ! r else mk_task [] LOW [])"

text \<open>
  An environment in which no running task completes: the clock stands at 0 and every
  random draw is 1.
\<close>

definition quiet_env :: env where
  "quiet_env = \<lparr>reap_clock = (\<lambda>tid. 0), reap_random = (\<lambda>tid. 1), admit_clock = (\<lambda>tid. 0)\<rparr>"

text \<open>
  Three tasks \<open>A\<close> (high), \<open>B\<close> (critical) and \<open>C\<close> (high), with the request of
  complexity 0.1, submitted in this order to a new scheduler on the pool as constructed.
\<close>

definition abc_submitted :: RealTimeScheduler where
  "abc_submitted =
     fold submit_task [0, 1, 2]
       (RealTimeScheduler_init
          (tasks_store [mk_task ''A'' HIGH (calculate_request 0.1),
                        mk_task ''B'' CRITICAL (calculate_request 0.1),
                        mk_task ''C'' HIGH (calculate_request 0.1)])
          ResourceManager_init)"

text \<open>
  Five pending tasks of one priority, each with the request of complexity 0.1 (0.16 CPU,
  1 GPU, 0.8 RAM), so that all five fit the pool as constructed together.
\<close>

definition five_pending :: RealTimeScheduler where
  "five_pending =
     fold submit_task [0, 1, 2, 3, 4]
       (RealTimeScheduler_init
          (tasks_store [mk_task ''T0'' MEDIUM (calculate_request 0.1),
                        mk_task ''T1'' MEDIUM (calculate_request 0.1),
                        mk_task ''T2'' MEDIUM (calculate_request 0.1),
                        mk_task ''T3'' MEDIUM (calculate_request 0.1),
                        mk_task ''T4'' MEDIUM (calculate_request 0.1)])
          ResourceManager_init)"

text \<open>
  The pool as constructed after \<^verbatim>\<open>update_usage(7)\<close> on its CPU entry (total 8, allocated
  7), and a scheduler on it with two pending tasks that ask for 2 CPU each.
\<close>

definition cpu_nearly_full :: ResourceManager where
  "cpu_nearly_full =
     ResourceManager_init\<lparr>hardware := (hardware ResourceManager_init)
       (''CPU'' \<mapsto> update_usage 7 (HardwareStatus_init ''CPU_Internal'' TOTAL_CPU_CORES ''Cores''))\<rparr>"

definition two_blocked :: RealTimeScheduler where
  "two_blocked =
     fold submit_task [0, 1]
       (RealTimeScheduler_init
          (tasks_store [mk_task ''P'' HIGH [(''CPU'', 2)], mk_task ''Q'' HIGH [(''CPU'', 2)]])
          cpu_nearly_full)"

section \<open>The arithmetic in double precision\<close>

subsection \<open>Rounding to binary64\<close>

text \<open>
  A finite double is \<open>m \<times> 2\<^sup>e\<close> with an integer \<open>\<bar>m\<bar> < 2\<^sup>5\<^sup>3\<close>; the spacing of the doubles in
  the binade \<open>[2\<^sup>b, 2\<^sup>b\<^sup>+\<^sup>1)\<close> is \<open>2\<^sup>b\<^sup>-\<^sup>5\<^sup>2\<close>, and below \<open>2\<^sup>-\<^sup>1\<^sup>0\<^sup>2\<^sup>2\<close> it stays \<open>2\<^sup>-\<^sup>1\<^sup>0\<^sup>7\<^sup>4\<close>
  (subnormals). Python's \<^verbatim>\<open>+\<close>, \<^verbatim>\<open>-\<close> and \<^verbatim>\<open>*\<close> on floats give the double nearest to the exact
  result, a tie going to the even \<open>m\<close>; so does reading a decimal literal.

  \<open>round_half_even\<close> rounds a rational to the nearest integer, ties to even. \<open>binade x\<close>
  is \<open>\<lfloor>log\<^sub>2 \<bar>x\<bar>\<rfloor>\<close>, found by halving or doubling at most 1100 times, which covers every
  exponent a double can have. \<open>round_double\<close> is the rounding itself, for results below
  the overflow threshold \<open>2\<^sup>1\<^sup>0\<^sup>2\<^sup>4\<close> (an overflow gives an infinity in Python, which is not
  modelled).
\<close>

definition round_half_even :: "rat \<Rightarrow> int" where
  "round_half_even x =
     (let f = \<lfloor>x\<rfloor>; r = x - of_int f
      in if r < 1 / 2 then f else if 1 / 2 < r then f + 1 else if even f then f else f + 1)"

fun binade_search :: "nat \<Rightarrow> rat \<Rightarrow> int" where
  "binade_search 0 x = 0"
| "binade_search (Suc n) x =
     (if x < 1 then binade_search n (2 * x) - 1
      else if 2 \<le> x then binade_search n (x / 2) + 1
      else 0)"

definition binade :: "rat \<Rightarrow> int" where
  "binade x = binade_search 1100 \<bar>x\<bar>"

definition round_double :: "rat \<Rightarrow> rat" where
  "round_double x =
     (if x = 0 then 0
      else let q = 2 powi (max (binade x) (- 1022) - 52)
           in of_int (round_half_even (x / q)) * q)"

subsection \<open>The pool with rounded arithmetic\<close>

text \<open>
  The functions of \<^verbatim>\<open>HardwareStatus\<close> and \<^verbatim>\<open>ResourceManager\<close> that compute, line by line as
  above, with \<open>rnd\<close> applied to each arithmetic result: \<^verbatim>\<open>total_capacity - self.allocated\<close>
  and \<^verbatim>\<open>self.total - self.allocated\<close> (lines 46 and 52), \<^verbatim>\<open>total += capacity\<close> (lines 133
  and 138), \<^verbatim>\<open>hw.allocated + req_amount\<close> (line 164) and \<^verbatim>\<open>hw.allocated - req_amount\<close>
  (line 181). \<^verbatim>\<open>max\<close> and the comparisons are exact in Python too. The first loop of
  \<^verbatim>\<open>allocate_resources\<close> only compares, so \<open>check_resources\<close> serves as it is.
\<close>

definition HardwareStatus_init_fp ::
  "(rat \<Rightarrow> rat) \<Rightarrow> string \<Rightarrow> py_float \<Rightarrow> string \<Rightarrow> HardwareStatus" where
  "HardwareStatus_init_fp rnd name total_capacity unit =
     \<lparr>hw_name = name, hw_total = total_capacity, hw_unit = unit, allocated = 0,
      available = rnd (total_capacity - 0), is_external = False\<rparr>"

definition update_usage_fp :: "(rat \<Rightarrow> rat) \<Rightarrow> py_float \<Rightarrow> HardwareStatus \<Rightarrow> HardwareStatus" where
  "update_usage_fp rnd usage hw =
     hw\<lparr>allocated := max 0 usage, available := rnd (hw_total hw - max 0 usage)\<rparr>"

definition add_external_hardware_fp ::
  "(rat \<Rightarrow> rat) \<Rightarrow> string \<Rightarrow> py_float \<Rightarrow> string \<Rightarrow> ResourceManager \<Rightarrow> py_error + ResourceManager" where
  "add_external_hardware_fp rnd name capacity unit pool =
     (if name \<in> dom (hardware pool) \<or> name \<in> dom (external_hardware pool) then Inr pool
      else
        let hw = (HardwareStatus_init_fp rnd name capacity unit)\<lparr>is_external := True\<rparr>;
            pool1 = pool\<lparr>external_hardware := (external_hardware pool)(name \<mapsto> hw)\<rparr>
        in if str_contains ''GPU'' name then
             (case hardware pool1 ''GPU'' of
                None \<Rightarrow> Inl (KeyError ''GPU'')
              | Some g \<Rightarrow>
                  Inr (pool1\<lparr>hardware := (hardware pool1)(''GPU'' \<mapsto>
                         g\<lparr>hw_total := rnd (hw_total g + capacity), hw_name := ''GPU_Hybrid''\<rparr>)\<rparr>))
           else if str_contains ''RAM'' name then
             (case hardware pool1 ''RAM'' of
                None \<Rightarrow> Inl (KeyError ''RAM'')
              | Some r \<Rightarrow>
                  Inr (pool1\<lparr>hardware := (hardware pool1)(''RAM'' \<mapsto>
                         r\<lparr>hw_total := rnd (hw_total r + capacity), hw_name := ''RAM_Hybrid''\<rparr>)\<rparr>))
           else Inr pool1)"

fun apply_allocation_fp ::
  "(rat \<Rightarrow> rat) \<Rightarrow> string \<Rightarrow> (string \<times> py_float) list \<Rightarrow>
   (string \<rightharpoonup> HardwareStatus) \<times> rm_event list \<Rightarrow> (string \<rightharpoonup> HardwareStatus) \<times> rm_event list" where
  "apply_allocation_fp rnd tname [] acc = acc"
| "apply_allocation_fp rnd tname ((res_name, req_amount) # rest) (hwm, out) =
     (case hwm res_name of
        Some hw \<Rightarrow>
          apply_allocation_fp rnd tname rest
            (hwm(res_name \<mapsto> update_usage_fp rnd (rnd (allocated hw + req_amount)) hw),
             out @ [RM_ALLOCATED tname req_amount (hw_unit hw) res_name])
      | None \<Rightarrow> apply_allocation_fp rnd tname rest (hwm, out))"

definition allocate_resources_fp ::
  "(rat \<Rightarrow> rat) \<Rightarrow> ResourceManager \<Rightarrow> AGI_Task \<Rightarrow>
   ResourceManager \<times> AGI_Task \<times> bool \<times> rm_event list" where
  "allocate_resources_fp rnd pool task =
     (case check_resources (hardware pool) (resource_request task) [] [] of
        (can_allocate, required_resources, out) \<Rightarrow>
          if can_allocate then
            (case apply_allocation_fp rnd (task_name task) required_resources (hardware pool, out) of
               (hwm, out') \<Rightarrow> (pool\<lparr>hardware := hwm\<rparr>, task\<lparr>status := ''Running''\<rparr>, True, out'))
          else (pool, task\<lparr>status := ''Queued_Blocked''\<rparr>, False, out))"

fun release_all_fp ::
  "(rat \<Rightarrow> rat) \<Rightarrow> (string \<times> py_float) list \<Rightarrow> (string \<rightharpoonup> HardwareStatus) \<Rightarrow>
   (string \<rightharpoonup> HardwareStatus)" where
  "release_all_fp rnd [] hwm = hwm"
| "release_all_fp rnd ((res_name, req_amount) # rest) hwm =
     (case hwm res_name of
        Some hw \<Rightarrow>
          release_all_fp rnd rest
            (hwm(res_name \<mapsto> update_usage_fp rnd (rnd (allocated hw - req_amount)) hw))
      | None \<Rightarrow> release_all_fp rnd rest hwm)"

definition free_resources_fp :: "(rat \<Rightarrow> rat) \<Rightarrow> ResourceManager \<Rightarrow> AGI_Task \<Rightarrow> ResourceManager" where
  "free_resources_fp rnd pool task =
     (if status task \<noteq> ''Finished'' then pool
      else pool\<lparr>hardware := release_all_fp rnd (resource_request task) (hardware pool)\<rparr>)"

text \<open>
  \<^verbatim>\<open>_calculate_request\<close> with its products rounded; the decimal literals of the source are
  the doubles nearest to them.
\<close>

definition calculate_request_fp :: "(rat \<Rightarrow> rat) \<Rightarrow> py_float \<Rightarrow> (string \<times> py_float) list" where
  "calculate_request_fp rnd cplx =
     (let cpu_req = rnd (cplx * rnd 0.2);
          gpu_req = rnd (cplx * rnd 0.1);
          ram_req = rnd (cplx * rnd 0.5);
          cpu_req' = min (rnd (cpu_req * TOTAL_CPU_CORES)) (rnd (rnd MAX_ALLOCATION_PER_TASK * TOTAL_CPU_CORES));
          gpu_req' = min (rnd (gpu_req * TOTAL_GPU_POWER)) (rnd (rnd MAX_ALLOCATION_PER_TASK * TOTAL_GPU_POWER));
          ram_req' = min (rnd (ram_req * TOTAL_RAM_GB)) (rnd (rnd MAX_ALLOCATION_PER_TASK * TOTAL_RAM_GB))
      in [(''CPU'', cpu_req'), (''GPU'', gpu_req'), (''RAM'', ram_req')])"

text \<open>Sequences of calls, and the allocated amount of a kind after one.\<close>

fun do_call_fp :: "(rat \<Rightarrow> rat) \<Rightarrow> pool_call \<Rightarrow> ResourceManager \<Rightarrow> py_error + ResourceManager" where
  "do_call_fp rnd (Attach name capacity unit) p = add_external_hardware_fp rnd name capacity unit p"
| "do_call_fp rnd (Reserve t) p = Inr (fst (allocate_resources_fp rnd p t))"
| "do_call_fp rnd (Release t) p = Inr (free_resources_fp rnd p t)"

fun run_calls_fp :: "(rat \<Rightarrow> rat) \<Rightarrow> pool_call list \<Rightarrow> ResourceManager \<Rightarrow> py_error + ResourceManager" where
  "run_calls_fp rnd [] p = Inr p"
| "run_calls_fp rnd (c # cs) p =
     (case do_call_fp rnd c p of Inl e \<Rightarrow> Inl e | Inr p' \<Rightarrow> run_calls_fp rnd cs p')"

definition allocated_after :: "py_error + ResourceManager \<Rightarrow> string \<Rightarrow> py_float option" where
  "allocated_after r kind =
     (case r of Inl e \<Rightarrow> None | Inr p \<Rightarrow> map_option allocated (hardware p kind))"

text \<open>The pool after every entry of a request has been reserved or released, with rounding.\<close>

definition reserve_each_fp ::
  "(rat \<Rightarrow> rat) \<Rightarrow> (string \<times> py_float) list \<Rightarrow> (string \<rightharpoonup> HardwareStatus) \<Rightarrow>
   (string \<rightharpoonup> HardwareStatus)" where
  "reserve_each_fp rnd reqs hwm =
     (\<lambda>k. case hwm k of
             None \<Rightarrow> None
           | Some hw \<Rightarrow>
               (case map_of reqs k of
                  None \<Rightarrow> Some hw
                | Some v \<Rightarrow> Some (update_usage_fp rnd (rnd (allocated hw + v)) hw)))"

definition release_each_fp ::
  "(rat \<Rightarrow> rat) \<Rightarrow> (string \<times> py_float) list \<Rightarrow> (string \<rightharpoonup> HardwareStatus) \<Rightarrow>
   (string \<rightharpoonup> HardwareStatus)" where
  "release_each_fp rnd reqs hwm =
     (\<lambda>k. case hwm k of
             None \<Rightarrow> None
           | Some hw \<Rightarrow>
               (case map_of reqs k of
                  None \<Rightarrow> Some hw
                | Some v \<Rightarrow> Some (update_usage_fp rnd (rnd (allocated hw - v)) hw)))"

text \<open>
  The part of the accounting invariant that no rounding can break: no allocated amount is
  negative (and the two kinds a hot-plug reads are tracked).
\<close>

definition alloc_nonneg :: "ResourceManager \<Rightarrow> bool" where
  "alloc_nonneg p =
     ((\<forall>k hw. hardware p k = Some hw \<longrightarrow> 0 \<le> allocated hw) \<and>
      ''GPU'' \<in> dom (hardware p) \<and> ''RAM'' \<in> dom (hardware p))"

section \<open>Properties\<close>

subsection \<open>The constructor\<close>

text \<open>
  C10, as stated, fails in its last part: \<^verbatim>\<open>submit_task\<close> takes any task object and reads
  only its priority, so a task that no constructor call produced (here a record with the
  fields the constructor would set) is queued, although the constructor raises.
\<close>

theorem task_submitted_without_constructor_counterexample:
  "AGI_Task_init ''1'' 0 ''A'' HIGH 0.1 = Inl (NameError ''uuid'') \<and>
   task_queue
     (submit_task 0
        (RealTimeScheduler_init (tasks_store [mk_task ''A'' HIGH (calculate_request 0.1)])
           ResourceManager_init)) = [0]"
  by (simp add: AGI_Task_init_def load_global_def module_globals_def python_builtins_def
      submit_task_def RealTimeScheduler_init_def sorted_reverse_def)

text \<open>
  C10, amended. Every call of the constructor fails: the first statement of
  \<^verbatim>\<open>AGI_Task.__init__\<close> reads \<^verbatim>\<open>uuid\<close>, which the module neither imports nor defines and
  which is no builtin, so for every argument the constructor raises \<^verbatim>\<open>NameError\<close> and
  produces no task. Nothing is said of tasks obtained in another way.
\<close>

theorem AGI_Task_init_raises_NameError:
  "AGI_Task_init uuid4 now name prio cplx = Inl (NameError ''uuid'')"
  by (simp add: AGI_Task_init_def load_global_def module_globals_def python_builtins_def)

text \<open>The lookup finds the names the module does bind and the builtins it calls.\<close>

lemma load_global_bound:
  "load_global ''time'' = Inr () \<and> load_global ''max'' = Inr () \<and> load_global ''abs'' = Inr () \<and>
   load_global ''dict'' = Inr () \<and> load_global ''json'' = Inl (NameError ''json'')"
  by (simp add: load_global_def module_globals_def python_builtins_def)

subsection \<open>What \<^verbatim>\<open>allocate_resources\<close> computes\<close>

lemma set_update_subset: "set (AList.update k v al) \<subseteq> insert (k, v) (set al)"
  by (induction al) auto

lemma update_fresh: "k \<notin> fst ` set al \<Longrightarrow> AList.update k v al = al @ [(k, v)]"
  by (induction al) auto

lemma fold_update_fresh:
  "distinct (map fst xs) \<Longrightarrow> fst ` set acc \<inter> fst ` set xs = {} \<Longrightarrow>
   fold (\<lambda>(k, v). AList.update k v) xs acc = acc @ xs"
proof (induction xs arbitrary: acc)
  case Nil
  then show ?case by simp
next
  case (Cons x xs)
  obtain k v where x: "x = (k, v)" by (cases x)
  from Cons.prems have fresh: "k \<notin> fst ` set acc" by (auto simp: x)
  have "fst ` set (acc @ [(k, v)]) \<inter> fst ` set xs = {}"
    using Cons.prems by (auto simp: x)
  with Cons.IH [of "acc @ [(k, v)]"] Cons.prems show ?case
    by (simp add: x update_fresh [OF fresh])
qed

lemma fits_Nil: "fits hwm []"
  by (simp add: fits_def)

lemma fits_Cons:
  "fits hwm ((k, v) # reqs) =
     ((case hwm k of None \<Rightarrow> True | Some hw \<Rightarrow> \<not> available hw < v) \<and> fits hwm reqs)"
  by (simp add: fits_def)

lemma check_resources_can: "fst (check_resources hwm reqs required out) = fits hwm reqs"
proof (induction reqs arbitrary: required out)
  case Nil
  show ?case by (simp add: fits_Nil)
next
  case (Cons x reqs)
  obtain k v where x: "x = (k, v)" by (cases x)
  show ?case
    by (cases "hwm k") (simp_all add: x fits_Cons Cons.IH)
qed

lemma check_resources_True:
  "fits hwm reqs \<Longrightarrow>
   check_resources hwm reqs required out =
     (True, fold (\<lambda>(k, v). AList.update k v) (tracked hwm reqs) required,
      out @ map (\<lambda>(k, v). RM_WARNING_unknown_resource k) (untracked hwm reqs))"
proof (induction reqs arbitrary: required out)
  case Nil
  show ?case by (simp add: tracked_def untracked_def)
next
  case (Cons x reqs)
  obtain k v where x: "x = (k, v)" by (cases x)
  from Cons.prems have f: "fits hwm reqs" by (simp add: x fits_Cons)
  show ?case
  proof (cases "hwm k")
    case None
    then show ?thesis
      by (simp add: x Cons.IH [OF f] tracked_def untracked_def)
  next
    case (Some hw)
    with Cons.prems have "\<not> available hw < v" by (simp add: x fits_Cons)
    with Some show ?thesis
      by (simp add: x Cons.IH [OF f] tracked_def untracked_def)
  qed
qed

lemma check_resources_tracked:
  "fst ` set required \<subseteq> dom hwm \<Longrightarrow>
   fst ` set (fst (snd (check_resources hwm reqs required out))) \<subseteq> dom hwm"
proof (induction reqs arbitrary: required out)
  case Nil
  then show ?case by simp
next
  case (Cons x reqs)
  obtain k v where x: "x = (k, v)" by (cases x)
  show ?case
  proof (cases "hwm k")
    case None
    with Cons.IH [OF Cons.prems] show ?thesis by (simp add: x)
  next
    case (Some hw)
    have "fst ` set (AList.update k v required) \<subseteq> insert k (fst ` set required)"
      using set_update_subset [of k v required] by force
    with Cons.prems Some have "fst ` set (AList.update k v required) \<subseteq> dom hwm"
      by blast
    from Cons.IH [OF this] Cons.prems Some show ?thesis by (simp add: x)
  qed
qed

lemma check_resources_False:
  "\<not> fits hwm reqs \<Longrightarrow> \<exists>required' out'. check_resources hwm reqs required out = (False, required', out')"
  using check_resources_can [of hwm reqs required out]
  by (cases "check_resources hwm reqs required out") auto

lemma check_resources_fits:
  "fits hwm reqs \<Longrightarrow> distinct (map fst reqs) \<Longrightarrow>
   check_resources hwm reqs [] out =
     (True, tracked hwm reqs, out @ map (\<lambda>(k, v). RM_WARNING_unknown_resource k) (untracked hwm reqs))"
proof -
  assume f: "fits hwm reqs" and d: "distinct (map fst reqs)"
  have dt: "distinct (map fst (tracked hwm reqs))"
    using d by (simp add: tracked_def distinct_map_filter)
  from check_resources_True [OF f, of "[]" out] fold_update_fresh [OF dt, of "[]"]
  show ?thesis by simp
qed

lemma apply_allocation_hardware:
  "distinct (map fst req) \<Longrightarrow>
   fst (apply_allocation n req (hwm, out)) = reserve_each req hwm"
proof (induction req arbitrary: hwm out)
  case Nil
  then show ?case by (auto simp: reserve_each_def split: option.splits)
next
  case (Cons x req)
  obtain k v where x: "x = (k, v)" by (cases x)
  from Cons.prems have k: "map_of req k = None" and d: "distinct (map fst req)"
    by (auto simp: x map_of_eq_None_iff)
  show ?case
  proof (cases "hwm k")
    case None
    with Cons.IH [OF d, of hwm out] k show ?thesis
      by (auto simp: x reserve_each_def fun_eq_iff split: option.splits)
  next
    case (Some hw)
    with Cons.IH [OF d] k show ?thesis
      by (auto simp: x reserve_each_def fun_eq_iff split: option.splits)
  qed
qed

lemma map_of_tracked:
  "map_of (tracked hwm reqs) k = (if hwm k = None then None else map_of reqs k)"
  by (induction reqs) (auto simp: tracked_def)

lemma reserve_each_tracked: "reserve_each (tracked hwm reqs) hwm = reserve_each reqs hwm"
  by (auto simp: reserve_each_def map_of_tracked fun_eq_iff split: option.splits)

lemma apply_allocation_out:
  "\<exists>ev. snd (apply_allocation n req (hwm, out)) = out @ ev"
proof (induction req arbitrary: hwm out)
  case Nil
  show ?case by simp
next
  case (Cons x req)
  obtain k v where x: "x = (k, v)" by (cases x)
  show ?case
  proof (cases "hwm k")
    case None
    with Cons.IH [of hwm out] show ?thesis by (simp add: x)
  next
    case (Some hw)
    from Cons.IH [of "hwm(k \<mapsto> update_usage (allocated hw + v) hw)"
                     "out @ [RM_ALLOCATED n v (hw_unit hw) k]"]
    obtain ev where "snd (apply_allocation n req
        (hwm(k \<mapsto> update_usage (allocated hw + v) hw), out @ [RM_ALLOCATED n v (hw_unit hw) k]))
        = (out @ [RM_ALLOCATED n v (hw_unit hw) k]) @ ev" by blast
    with Some show ?thesis by (simp add: x)
  qed
qed

lemma allocate_resources_admitted:
  assumes f: "fits (hardware p) (resource_request t)"
    and d: "distinct (map fst (resource_request t))"
  shows "\<exists>ev. allocate_resources p t =
           (p\<lparr>hardware := reserve_each (resource_request t) (hardware p)\<rparr>,
            t\<lparr>status := ''Running''\<rparr>, True,
            map (\<lambda>(k, v). RM_WARNING_unknown_resource k) (untracked (hardware p) (resource_request t)) @ ev)"
proof -
  let ?req = "tracked (hardware p) (resource_request t)"
  let ?w = "map (\<lambda>(k, v). RM_WARNING_unknown_resource k) (untracked (hardware p) (resource_request t))"
  have dt: "distinct (map fst ?req)"
    using d by (simp add: tracked_def distinct_map_filter)
  obtain hwm out' where a: "apply_allocation (task_name t) ?req (hardware p, ?w) = (hwm, out')"
    by (cases "apply_allocation (task_name t) ?req (hardware p, ?w)") auto
  from apply_allocation_hardware [OF dt, of "task_name t" "hardware p" ?w] a
  have h: "hwm = reserve_each (resource_request t) (hardware p)"
    by (simp add: reserve_each_tracked)
  from apply_allocation_out [of "task_name t" ?req "hardware p" ?w] a
  obtain ev where o: "out' = ?w @ ev" by auto
  show ?thesis
    by (simp add: allocate_resources_def check_resources_fits [OF f d] a h o)
qed

lemma allocate_resources_blocked:
  assumes "\<not> fits (hardware p) (resource_request t)"
  shows "\<exists>out. allocate_resources p t = (p, t\<lparr>status := ''Queued_Blocked''\<rparr>, False, out)"
proof -
  from check_resources_False [OF assms, of "[]" "[]"]
  obtain r' o' where "check_resources (hardware p) (resource_request t) [] [] = (False, r', o')"
    by blast
  then show ?thesis by (simp add: allocate_resources_def)
qed

subsection \<open>The invariant of the pool is kept\<close>

lemma fold_update_props:
  "distinct (map fst acc) \<Longrightarrow>
   distinct (map fst (fold (\<lambda>(k, v). AList.update k v) xs acc)) \<and>
   set (fold (\<lambda>(k, v). AList.update k v) xs acc) \<subseteq> set acc \<union> set xs"
proof (induction xs arbitrary: acc)
  case Nil
  then show ?case by simp
next
  case (Cons x xs)
  obtain k v where x: "x = (k, v)" by (cases x)
  from Cons.prems have "distinct (map fst (AList.update k v acc))"
    by (simp add: distinct_update)
  from Cons.IH [OF this] set_update_subset [of k v acc] show ?case
    by (auto simp: x)
qed

lemma hw_ok_reserve:
  "hw_ok hw \<Longrightarrow> \<not> available hw < v \<Longrightarrow> hw_ok (update_usage (allocated hw + v) hw)"
  by (auto simp: hw_ok_def update_usage_def max_def)

lemma hw_ok_release:
  "hw_ok hw \<Longrightarrow> 0 \<le> v \<Longrightarrow> hw_ok (update_usage (allocated hw - v) hw)"
  by (auto simp: hw_ok_def update_usage_def max_def)

lemma pool_ok_reserve_each:
  assumes ok: "pool_ok hwm"
    and fit: "\<forall>(k, v) \<in> set R. \<forall>hw. hwm k = Some hw \<longrightarrow> \<not> available hw < v"
  shows "pool_ok (reserve_each R hwm)"
  unfolding pool_ok_def
proof (intro allI impI)
  fix k hw'
  assume r: "reserve_each R hwm k = Some hw'"
  then obtain hw where hw: "hwm k = Some hw"
    by (auto simp: reserve_each_def split: option.splits)
  with ok have okh: "hw_ok hw" by (simp add: pool_ok_def)
  show "hw_ok hw'"
  proof (cases "map_of R k")
    case None
    with r hw okh show ?thesis by (simp add: reserve_each_def)
  next
    case (Some v)
    then have "(k, v) \<in> set R" by (rule map_of_SomeD)
    with fit hw have "\<not> available hw < v" by auto
    from hw_ok_reserve [OF okh this] r hw Some show ?thesis
      by (simp add: reserve_each_def)
  qed
qed

lemma dom_reserve_each: "(reserve_each R hwm k = None) = (hwm k = None)"
  by (simp add: reserve_each_def split: option.splits)

lemma allocate_resources_hardware:
  "\<exists>R. set R \<subseteq> set (tracked (hardware p) (resource_request t)) \<and>
       hardware (fst (allocate_resources p t)) =
         (if fits (hardware p) (resource_request t) then reserve_each R (hardware p)
          else hardware p)"
proof (cases "fits (hardware p) (resource_request t)")
  case False
  from allocate_resources_blocked [OF False] show ?thesis
    using False by auto
next
  case True
  let ?R = "fold (\<lambda>(k, v). AList.update k v) (tracked (hardware p) (resource_request t)) []"
  from fold_update_props [of "[]" "tracked (hardware p) (resource_request t)"]
  have d: "distinct (map fst ?R)" and sub: "set ?R \<subseteq> set (tracked (hardware p) (resource_request t))"
    by simp_all
  let ?w = "map (\<lambda>(k, v). RM_WARNING_unknown_resource k) (untracked (hardware p) (resource_request t))"
  obtain hwm out' where a: "apply_allocation (task_name t) ?R (hardware p, ?w) = (hwm, out')"
    by (cases "apply_allocation (task_name t) ?R (hardware p, ?w)") auto
  from apply_allocation_hardware [OF d, of "task_name t" "hardware p" ?w] a
  have "hwm = reserve_each ?R (hardware p)" by simp
  then have "hardware (fst (allocate_resources p t)) = reserve_each ?R (hardware p)"
    by (simp add: allocate_resources_def check_resources_True [OF True] a)
  with sub True show ?thesis by auto
qed

lemma fits_tracked:
  "fits hwm reqs \<Longrightarrow> (k, v) \<in> set (tracked hwm reqs) \<Longrightarrow> hwm k = Some hw \<Longrightarrow> \<not> available hw < v"
  by (auto simp: fits_def tracked_def)

lemma allocate_resources_pool_ok:
  assumes "pool_ok (hardware p)"
  shows "pool_ok (hardware (fst (allocate_resources p t)))"
proof -
  from allocate_resources_hardware [of p t] obtain R where
    sub: "set R \<subseteq> set (tracked (hardware p) (resource_request t))" and
    h: "hardware (fst (allocate_resources p t)) =
         (if fits (hardware p) (resource_request t) then reserve_each R (hardware p)
          else hardware p)" by blast
  show ?thesis
  proof (cases "fits (hardware p) (resource_request t)")
    case False
    with h assms show ?thesis by simp
  next
    case True
    have "\<forall>(k, v) \<in> set R. \<forall>hw. hardware p k = Some hw \<longrightarrow> \<not> available hw < v"
      using sub fits_tracked [OF True] by blast
    from pool_ok_reserve_each [OF assms this] h True show ?thesis by simp
  qed
qed

lemma allocate_resources_dom:
  "(hardware (fst (allocate_resources p t)) k = None) = (hardware p k = None)"
proof -
  from allocate_resources_hardware [of p t] obtain R where
    h: "hardware (fst (allocate_resources p t)) =
         (if fits (hardware p) (resource_request t) then reserve_each R (hardware p)
          else hardware p)" by blast
  show ?thesis
    by (cases "fits (hardware p) (resource_request t)") (simp_all add: h dom_reserve_each)
qed

lemma release_all_pool_ok:
  "pool_ok hwm \<Longrightarrow> \<forall>(k, v) \<in> set reqs. 0 \<le> v \<Longrightarrow> pool_ok (release_all reqs hwm)"
proof (induction reqs arbitrary: hwm)
  case Nil
  then show ?case by simp
next
  case (Cons x reqs)
  obtain k v where x: "x = (k, v)" by (cases x)
  from Cons.prems have v: "0 \<le> v" and rest: "\<forall>(k, v) \<in> set reqs. 0 \<le> v"
    by (auto simp: x)
  show ?case
  proof (cases "hwm k")
    case None
    with Cons.IH [OF Cons.prems(1) rest] show ?thesis by (simp add: x)
  next
    case (Some hw)
    with Cons.prems(1) have "hw_ok hw" by (simp add: pool_ok_def)
    from hw_ok_release [OF this v] Cons.prems(1)
    have upd: "pool_ok (hwm(k \<mapsto> update_usage (allocated hw - v) hw))"
      by (auto simp: pool_ok_def)
    have e: "release_all (x # reqs) hwm =
             release_all reqs (hwm(k \<mapsto> update_usage (allocated hw - v) hw))"
      by (simp add: x Some)
    show ?thesis unfolding e by (rule Cons.IH [OF upd rest])
  qed
qed

lemma release_all_dom: "(release_all reqs hwm k = None) = (hwm k = None)"
proof (induction reqs arbitrary: hwm)
  case Nil
  show ?case by simp
next
  case (Cons x reqs)
  obtain k' v where x: "x = (k', v)" by (cases x)
  show ?case
    by (cases "hwm k'") (auto simp: x Cons.IH)
qed

lemma pool_inv_init: "pool_inv ResourceManager_init"
  by (auto simp: pool_inv_def pool_ok_def hw_ok_def ResourceManager_init_def
      HardwareStatus_init_def baseline_def TOTAL_CPU_CORES_def TOTAL_GPU_POWER_def
      TOTAL_RAM_GB_def split: if_splits)

lemma reserve_each_total:
  "map_option hw_total (reserve_each R hwm k) = map_option hw_total (hwm k)"
  by (simp add: reserve_each_def update_usage_def split: option.splits)

lemma release_all_total:
  "map_option hw_total (release_all reqs hwm k) = map_option hw_total (hwm k)"
proof (induction reqs arbitrary: hwm)
  case Nil
  show ?case by simp
next
  case (Cons x reqs)
  obtain k' v where x: "x = (k', v)" by (cases x)
  show ?case
    by (cases "hwm k'") (auto simp: x Cons.IH update_usage_def)
qed

lemma allocate_resources_total:
  "map_option hw_total (hardware (fst (allocate_resources p t)) k) = map_option hw_total (hardware p k)"
proof -
  from allocate_resources_hardware [of p t] obtain R where
    h: "hardware (fst (allocate_resources p t)) =
         (if fits (hardware p) (resource_request t) then reserve_each R (hardware p)
          else hardware p)" by blast
  show ?thesis
    by (cases "fits (hardware p) (resource_request t)") (simp_all add: h reserve_each_total)
qed

lemma totals_preserved:
  assumes "\<And>k. map_option hw_total (h' k) = map_option hw_total (h k)"
    and "\<exists>hw. h kind = Some hw \<and> b \<le> hw_total hw"
  shows "\<exists>hw. h' kind = Some hw \<and> b \<le> hw_total hw"
proof -
  from assms(2) obtain hw where hw: "h kind = Some hw" "b \<le> hw_total hw" by blast
  with assms(1) [of kind] obtain hw' where "h' kind = Some hw'" "hw_total hw' = hw_total hw"
    by (cases "h' kind") auto
  with hw show ?thesis by simp
qed

lemma pool_inv_allocate: "pool_inv p \<Longrightarrow> pool_inv (fst (allocate_resources p t))"
  unfolding pool_inv_def
  using allocate_resources_pool_ok [of p t]
    totals_preserved [of "hardware (fst (allocate_resources p t))" "hardware p", OF allocate_resources_total]
  by blast

lemma pool_inv_free:
  assumes "pool_inv p" "list_all (\<lambda>(k, v). 0 \<le> v) (resource_request t)"
  shows "pool_inv (free_resources p t)"
proof (cases "status t = ''Finished''")
  case False
  with assms show ?thesis by (simp add: free_resources_def)
next
  case True
  from assms(2) have nn: "\<forall>(k, v) \<in> set (resource_request t). 0 \<le> v"
    by (simp add: list_all_iff)
  from assms(1) have ok: "pool_ok (hardware p)" by (simp add: pool_inv_def)
  have h: "hardware (free_resources p t) = release_all (resource_request t) (hardware p)"
    using True by (simp add: free_resources_def)
  show ?thesis
    unfolding pool_inv_def h
    using release_all_pool_ok [OF ok nn] assms(1)
      totals_preserved [of "release_all (resource_request t) (hardware p)" "hardware p", OF release_all_total]
    unfolding pool_inv_def by blast
qed

lemma baseline_cases:
  "baseline kind = Some b \<Longrightarrow>
   (kind = ''CPU'' \<and> b = TOTAL_CPU_CORES) \<or> (kind = ''GPU'' \<and> b = TOTAL_GPU_POWER) \<or>
   (kind = ''RAM'' \<and> b = TOTAL_RAM_GB)"
  by (auto simp: baseline_def split: if_splits)

lemma pool_ok_raise_total:
  assumes "pool_ok hwm" "hwm k = Some g" "0 \<le> c"
  shows "pool_ok (hwm(k \<mapsto> g\<lparr>hw_total := hw_total g + c, hw_name := n\<rparr>))"
proof -
  from assms(1,2) have "hw_ok g" by (simp add: pool_ok_def)
  with assms(3) have "hw_ok (g\<lparr>hw_total := hw_total g + c, hw_name := n\<rparr>)"
    by (simp add: hw_ok_def)
  with assms(1) show ?thesis by (simp add: pool_ok_def)
qed

lemma baseline_simps:
  "baseline ''CPU'' = Some TOTAL_CPU_CORES"
  "baseline ''GPU'' = Some TOTAL_GPU_POWER"
  "baseline ''RAM'' = Some TOTAL_RAM_GB"
  by (simp_all add: baseline_def)

lemma pool_inv_tracked:
  "pool_inv p \<Longrightarrow> baseline kind = Some b \<Longrightarrow> \<exists>hw. hardware p kind = Some hw \<and> b \<le> hw_total hw"
  by (simp add: pool_inv_def)

lemma pool_inv_attach:
  assumes inv: "pool_inv p" and c: "0 \<le> capacity"
  shows "\<exists>p'. add_external_hardware name capacity unit p = Inr p' \<and> pool_inv p'"
proof -
  from inv have ok: "pool_ok (hardware p)" by (simp add: pool_inv_def)
  from pool_inv_tracked [OF inv baseline_simps(2)]
  obtain g where g: "hardware p ''GPU'' = Some g" "TOTAL_GPU_POWER \<le> hw_total g" by blast
  from pool_inv_tracked [OF inv baseline_simps(3)]
  obtain r where r: "hardware p ''RAM'' = Some r" "TOTAL_RAM_GB \<le> hw_total r" by blast
  from pool_inv_tracked [OF inv baseline_simps(1)]
  obtain u where u: "hardware p ''CPU'' = Some u" "TOTAL_CPU_CORES \<le> hw_total u" by blast
  let ?dup = "name \<in> dom (hardware p) \<or> name \<in> dom (external_hardware p)"
  consider (dup) "?dup"
    | (gpu) "\<not> ?dup" "str_contains ''GPU'' name"
    | (ram) "\<not> ?dup" "\<not> str_contains ''GPU'' name" "str_contains ''RAM'' name"
    | (other) "\<not> ?dup" "\<not> str_contains ''GPU'' name" "\<not> str_contains ''RAM'' name"
    by blast
  then show ?thesis
  proof cases
    case dup
    with inv show ?thesis by (simp add: add_external_hardware_def)
  next
    case gpu
    have "pool_inv (p\<lparr>external_hardware := (external_hardware p)(name \<mapsto>
            (HardwareStatus_init name capacity unit)\<lparr>is_external := True\<rparr>),
          hardware := (hardware p)(''GPU'' \<mapsto> g\<lparr>hw_total := hw_total g + capacity, hw_name := ''GPU_Hybrid''\<rparr>)\<rparr>)"
      unfolding pool_inv_def
      using pool_ok_raise_total [OF ok g(1) c, of "''GPU_Hybrid''"] g r u c
      by (auto dest!: baseline_cases)
    with gpu g show ?thesis
      by (simp add: add_external_hardware_def Let_def)
  next
    case ram
    have "pool_inv (p\<lparr>external_hardware := (external_hardware p)(name \<mapsto>
            (HardwareStatus_init name capacity unit)\<lparr>is_external := True\<rparr>),
          hardware := (hardware p)(''RAM'' \<mapsto> r\<lparr>hw_total := hw_total r + capacity, hw_name := ''RAM_Hybrid''\<rparr>)\<rparr>)"
      unfolding pool_inv_def
      using pool_ok_raise_total [OF ok r(1) c, of "''RAM_Hybrid''"] g r u c
      by (auto dest!: baseline_cases)
    with ram r show ?thesis
      by (simp add: add_external_hardware_def Let_def)
  next
    case other
    with inv show ?thesis
      by (simp add: add_external_hardware_def Let_def pool_inv_def)
  qed
qed

lemma pool_inv_do_call:
  "pool_inv p \<Longrightarrow> call_ok c \<Longrightarrow> \<exists>p'. do_call c p = Inr p' \<and> pool_inv p'"
  by (cases c) (simp_all add: pool_inv_attach pool_inv_allocate pool_inv_free)

lemma pool_inv_run_calls:
  "pool_inv p \<Longrightarrow> list_all call_ok calls \<Longrightarrow> \<exists>p'. run_calls calls p = Inr p' \<and> pool_inv p'"
proof (induction calls arbitrary: p)
  case Nil
  then show ?case by simp
next
  case (Cons c calls)
  from Cons.prems have "call_ok c" and rest: "list_all call_ok calls" by simp_all
  from pool_inv_do_call [OF Cons.prems(1) this(1)]
  obtain p1 where p1: "do_call c p = Inr p1" "pool_inv p1" by blast
  from Cons.IH [OF p1(2) rest] p1(1) show ?case by simp
qed

lemma calculate_request_nonneg:
  "0 \<le> cplx \<Longrightarrow> list_all (\<lambda>(k, v). 0 \<le> v) (calculate_request cplx)"
  by (simp add: calculate_request_def Let_def TOTAL_CPU_CORES_def TOTAL_GPU_POWER_def
      TOTAL_RAM_GB_def MAX_ALLOCATION_PER_TASK_def)

text \<open>
  Outside that domain the clamp of \<^verbatim>\<open>update_usage\<close> is the only guard: releasing a negative
  amount raises the allocated amount, here to 16 of 8 CPU.
\<close>

lemma release_of_negative_amount:
  "map_option allocated
     (hardware (free_resources ResourceManager_init
        ((mk_task ''n'' LOW [(''CPU'', - 16)])\<lparr>status := ''Finished''\<rparr>)) ''CPU'') = Some 16"
  by (simp add: free_resources_def mk_task_def ResourceManager_init_def HardwareStatus_init_def
      update_usage_def)

text \<open>
  With exact arithmetic the guard of \<^verbatim>\<open>allocate_resources\<close> keeps the accounting
  invariant: starting from the pool as constructed, after every call of a sequence of
  hot-plug, reserve and release calls, no call raises and every tracked resource has
  \<open>0 \<le> allocated \<le> total\<close>. The hot-plugged capacities and the released amounts are
  quantities, not negative, as the requests derived from a complexity in \<open>[0, 1]\<close> are
  (\<open>calculate_request_nonneg\<close>); the reserved amounts are arbitrary. With the rounding of
  doubles the upper bound is lost (see the accounting invariant in doubles, below).
\<close>

lemma accounting_invariant_exact:
  assumes "list_all call_ok calls"
  shows "\<exists>p. run_calls (take n calls) ResourceManager_init = Inr p \<and>
             (\<forall>kind hw. hardware p kind = Some hw \<longrightarrow>
                0 \<le> allocated hw \<and> allocated hw \<le> hw_total hw)"
proof -
  from assms have "list_all call_ok (take n calls)"
    by (auto simp: list_all_iff dest: in_set_takeD)
  from pool_inv_run_calls [OF pool_inv_init this]
  obtain p where p: "run_calls (take n calls) ResourceManager_init = Inr p" "pool_inv p"
    by blast
  then show ?thesis
    by (auto simp: pool_inv_def pool_ok_def hw_ok_def)
qed

subsection \<open>Releasing\<close>

lemma release_all_hardware:
  "distinct (map fst reqs) \<Longrightarrow> release_all reqs hwm = release_each reqs hwm"
proof (induction reqs arbitrary: hwm)
  case Nil
  show ?case by (auto simp: release_each_def split: option.splits)
next
  case (Cons x reqs)
  obtain k v where x: "x = (k, v)" by (cases x)
  from Cons.prems have k: "map_of reqs k = None" and d: "distinct (map fst reqs)"
    by (auto simp: x map_of_eq_None_iff)
  show ?case
  proof (cases "hwm k")
    case None
    with Cons.IH [OF d, of hwm] k show ?thesis
      by (auto simp: x release_each_def fun_eq_iff split: option.splits)
  next
    case (Some hw)
    with Cons.IH [OF d] k show ?thesis
      by (auto simp: x release_each_def fun_eq_iff split: option.splits)
  qed
qed

lemma calculate_request_entries:
  "(kind, amount) \<in> set (calculate_request cplx) \<Longrightarrow>
   \<exists>b. baseline kind = Some b \<and> amount \<le> 0.5 * b"
  by (auto simp: calculate_request_def baseline_def Let_def MAX_ALLOCATION_PER_TASK_def)

lemma init_allocated: "hardware ResourceManager_init k = Some hw \<Longrightarrow> allocated hw = 0"
  by (auto simp: ResourceManager_init_def HardwareStatus_init_def split: if_splits)

subsection \<open>Kinds the pool does not track\<close>

lemma fits_iff:
  "fits hwm reqs = (\<forall>(k, v) \<in> set reqs. \<forall>hw. hwm k = Some hw \<longrightarrow> v \<le> available hw)"
  by (auto simp: fits_def split: option.splits)

lemma fits_tracked_iff: "fits hwm (tracked hwm reqs) = fits hwm reqs"
  by (auto simp: fits_def tracked_def split: option.splits)

lemma entry_fits_Cons: "entry_fits hwm (k, v) = (case hwm k of None \<Rightarrow> True | Some hw \<Rightarrow> \<not> available hw < v)"
  by (simp add: entry_fits_def)

lemma check_resources_scanned:
  "check_resources hwm reqs required out =
     (fits hwm reqs,
      fold (\<lambda>(k, v). AList.update k v) (tracked hwm (scanned hwm reqs)) required,
      out @ map (\<lambda>(k, v). RM_WARNING_unknown_resource k) (untracked hwm (scanned hwm reqs)))"
proof (induction reqs arbitrary: required out)
  case Nil
  show ?case by (simp add: fits_Nil tracked_def untracked_def scanned_def)
next
  case (Cons x reqs)
  obtain k v where x: "x = (k, v)" by (cases x)
  show ?case
  proof (cases "hwm k")
    case None
    then show ?thesis
      by (simp add: x Cons.IH fits_Cons tracked_def untracked_def scanned_def entry_fits_Cons)
  next
    case (Some hw)
    show ?thesis
    proof (cases "available hw < v")
      case True
      with Some show ?thesis
        by (simp add: x fits_Cons tracked_def untracked_def scanned_def entry_fits_Cons)
    next
      case False
      with Some show ?thesis
        by (simp add: x Cons.IH fits_Cons tracked_def untracked_def scanned_def entry_fits_Cons)
    qed
  qed
qed

lemma allocate_resources_blocked_out:
  assumes "\<not> fits (hardware p) (resource_request t)"
  shows "allocate_resources p t =
           (p, t\<lparr>status := ''Queued_Blocked''\<rparr>, False,
            map (\<lambda>(k, v). RM_WARNING_unknown_resource k)
              (untracked (hardware p) (scanned (hardware p) (resource_request t))))"
  using assms by (simp add: allocate_resources_def check_resources_scanned)

lemma apply_allocation_events:
  "\<exists>ev. snd (apply_allocation n req (hwm, out)) = out @ ev \<and>
        (\<forall>k. RM_WARNING_unknown_resource k \<notin> set ev)"
proof (induction req arbitrary: hwm out)
  case Nil
  show ?case by simp
next
  case (Cons x req)
  obtain k v where x: "x = (k, v)" by (cases x)
  show ?case
  proof (cases "hwm k")
    case None
    with Cons.IH [of hwm out] show ?thesis by (simp add: x)
  next
    case (Some hw)
    let ?h = "hwm(k \<mapsto> update_usage (allocated hw + v) hw)"
    let ?o = "out @ [RM_ALLOCATED n v (hw_unit hw) k]"
    have e: "apply_allocation n (x # req) (hwm, out) = apply_allocation n req (?h, ?o)"
      by (simp add: x Some)
    from Cons.IH [of ?h ?o] obtain ev where
      ev: "snd (apply_allocation n req (?h, ?o)) = ?o @ ev"
          "\<forall>k. RM_WARNING_unknown_resource k \<notin> set ev" by blast
    have "snd (apply_allocation n (x # req) (hwm, out)) = out @ (RM_ALLOCATED n v (hw_unit hw) k # ev)"
      unfolding e using ev(1) by simp
    moreover have "\<forall>k'. RM_WARNING_unknown_resource k' \<notin> set (RM_ALLOCATED n v (hw_unit hw) k # ev)"
      using ev(2) by simp
    ultimately show ?thesis by blast
  qed
qed

lemma allocate_resources_admitted_out:
  assumes f: "fits (hardware p) (resource_request t)"
    and alloc: "allocate_resources p t = (p', t', ok, out)"
  shows "\<exists>ev. out = map (\<lambda>(k, v). RM_WARNING_unknown_resource k)
                      (untracked (hardware p) (resource_request t)) @ ev \<and>
             (\<forall>k. RM_WARNING_unknown_resource k \<notin> set ev)"
proof -
  let ?R = "fold (\<lambda>(k, v). AList.update k v) (tracked (hardware p) (resource_request t)) []"
  let ?w = "map (\<lambda>(k, v). RM_WARNING_unknown_resource k) (untracked (hardware p) (resource_request t))"
  obtain hwm out' where a: "apply_allocation (task_name t) ?R (hardware p, ?w) = (hwm, out')"
    by (cases "apply_allocation (task_name t) ?R (hardware p, ?w)") auto
  from apply_allocation_events [of "task_name t" ?R "hardware p" ?w] a
  obtain ev where ev: "out' = ?w @ ev" "\<forall>k. RM_WARNING_unknown_resource k \<notin> set ev" by auto
  from alloc have "out = out'"
    by (simp add: allocate_resources_def check_resources_True [OF f] a)
  with ev show ?thesis by blast
qed

text \<open>
  C9, as stated, fails: a request with an untracked kind is not always answered with a
  warning. In the pool as constructed the request \<open>CPU 100, TPU 1\<close> is refused at its
  first entry; the loop ends there (\<^verbatim>\<open>break\<close>), the entry for the untracked \<open>TPU\<close> is
  never reached, and nothing is printed.
\<close>

theorem warning_not_always_printed_counterexample:
  "hardware ResourceManager_init ''TPU'' = None \<and>
   allocate_resources ResourceManager_init (mk_task ''a'' HIGH [(''CPU'', 100), (''TPU'', 1)]) =
     (ResourceManager_init,
      (mk_task ''a'' HIGH [(''CPU'', 100), (''TPU'', 1)])\<lparr>status := ''Queued_Blocked''\<rparr>,
      False, [])"
  by (simp add: allocate_resources_def mk_task_def ResourceManager_init_def
      HardwareStatus_init_def TOTAL_CPU_CORES_def)

text \<open>
  C9, amended. A requested kind that the pool does not track is skipped: the task is
  admitted exactly when every requested kind the pool tracks fits, as the same task
  without the untracked kinds would be; exactly the tracked kinds are reserved and no
  untracked kind enters the pool. The warning for an untracked kind is printed when the
  first loop reaches its entry: when the task is admitted, for every untracked kind (the
  output is these warnings, in order, followed by events that are no warnings); when it is
  blocked, only for the untracked kinds that come before the first tracked kind that does
  not fit.
\<close>

theorem unknown_kind_partial_ignore:
  assumes d: "distinct (map fst (resource_request t))"
    and alloc: "allocate_resources p t = (p', t', ok, out)"
  shows "(ok \<longleftrightarrow> (\<forall>(k, v) \<in> set (resource_request t).
                   \<forall>hw. hardware p k = Some hw \<longrightarrow> v \<le> available hw)) \<and>
         (\<exists>out2. allocate_resources p (t\<lparr>resource_request := tracked (hardware p) (resource_request t)\<rparr>) =
                   (p', t'\<lparr>resource_request := tracked (hardware p) (resource_request t)\<rparr>, ok, out2)) \<and>
         (ok \<longrightarrow> status t' = ''Running'' \<and>
                hardware p' = reserve_each (tracked (hardware p) (resource_request t)) (hardware p) \<and>
                (\<forall>(k, v) \<in> set (resource_request t).
                   hardware p k = None \<longrightarrow> RM_WARNING_unknown_resource k \<in> set out) \<and>
                (\<exists>ev. out = map (\<lambda>(k, v). RM_WARNING_unknown_resource k)
                                (untracked (hardware p) (resource_request t)) @ ev \<and>
                      (\<forall>k. RM_WARNING_unknown_resource k \<notin> set ev))) \<and>
         (\<not> ok \<longrightarrow> status t' = ''Queued_Blocked'' \<and> p' = p \<and>
                  out = map (\<lambda>(k, v). RM_WARNING_unknown_resource k)
                          (untracked (hardware p)
                             (takeWhile (entry_fits (hardware p)) (resource_request t)))) \<and>
         (\<forall>k. hardware p k = None \<longrightarrow> hardware p' k = None)"
proof (cases "fits (hardware p) (resource_request t)")
  case True
  let ?tr = "tracked (hardware p) (resource_request t)"
  let ?t2 = "t\<lparr>resource_request := ?tr\<rparr>"
  from allocate_resources_admitted [OF True d] alloc obtain ev where
    ok: "ok" and p': "p' = p\<lparr>hardware := reserve_each (resource_request t) (hardware p)\<rparr>"
    and t': "t' = t\<lparr>status := ''Running''\<rparr>"
    and out: "out = map (\<lambda>(k, v). RM_WARNING_unknown_resource k)
                      (untracked (hardware p) (resource_request t)) @ ev"
    by auto
  have d2: "distinct (map fst (resource_request ?t2))"
    using d by (simp add: tracked_def distinct_map_filter)
  have f2: "fits (hardware p) (resource_request ?t2)"
    using True by (simp add: fits_tracked_iff)
  from allocate_resources_admitted [OF f2 d2] have
    two: "\<exists>out2. allocate_resources p ?t2 = (p', t'\<lparr>resource_request := ?tr\<rparr>, ok, out2)"
    by (auto simp: p' t' ok reserve_each_tracked)
  have warn: "\<forall>(k, v) \<in> set (resource_request t).
                hardware p k = None \<longrightarrow> RM_WARNING_unknown_resource k \<in> set out"
    by (force simp: out untracked_def)
  note evs = allocate_resources_admitted_out [OF True alloc]
  have none: "\<forall>k. hardware p k = None \<longrightarrow> hardware p' k = None"
    by (simp add: p' dom_reserve_each)
  from True ok two warn none evs show ?thesis
    by (simp add: fits_iff [symmetric] t' p' reserve_each_tracked)
next
  case False
  let ?tr = "tracked (hardware p) (resource_request t)"
  let ?t2 = "t\<lparr>resource_request := ?tr\<rparr>"
  from allocate_resources_blocked_out [OF False] alloc have
    ok: "\<not> ok" and p': "p' = p" and t': "t' = t\<lparr>status := ''Queued_Blocked''\<rparr>"
    and out: "out = map (\<lambda>(k, v). RM_WARNING_unknown_resource k)
                (untracked (hardware p) (scanned (hardware p) (resource_request t)))"
    by auto
  have f2: "\<not> fits (hardware p) (resource_request ?t2)"
    using False by (simp add: fits_tracked_iff)
  from allocate_resources_blocked [OF f2] have
    two: "\<exists>out2. allocate_resources p ?t2 = (p', t'\<lparr>resource_request := ?tr\<rparr>, ok, out2)"
    by (auto simp: p' t' ok)
  from False ok two out show ?thesis
    by (simp add: fits_iff [symmetric] t' p' scanned_def)
qed

theorem unknown_kind_partial_ignore_witness:
  "(case allocate_resources ResourceManager_init (mk_task ''a'' HIGH [(''CPU'', 2), (''TPU'', 1)]) of
      (p', t', ok, out) \<Rightarrow>
        ok \<and> status t' = ''Running'' \<and>
        map_option allocated (hardware p' ''CPU'') = Some 2 \<and>
        hardware p' ''TPU'' = None \<and>
        RM_WARNING_unknown_resource ''TPU'' \<in> set out) \<and>
   (case allocate_resources ResourceManager_init
           (mk_task ''b'' HIGH [(''TPU'', 1), (''CPU'', 100), (''NPU'', 1)]) of
      (p', t', ok, out) \<Rightarrow>
        \<not> ok \<and> status t' = ''Queued_Blocked'' \<and> p' = ResourceManager_init \<and>
        out = [RM_WARNING_unknown_resource ''TPU''])"
proof -
  let ?t = "mk_task ''a'' HIGH [(''CPU'', 2), (''TPU'', 1)]"
  let ?b = "mk_task ''b'' HIGH [(''TPU'', 1), (''CPU'', 100), (''NPU'', 1)]"
  have h1: "distinct (map fst (resource_request ?t))" by (simp add: mk_task_def)
  have hb: "distinct (map fst (resource_request ?b))" by (simp add: mk_task_def)
  obtain p' t' ok out where a: "allocate_resources ResourceManager_init ?t = (p', t', ok, out)"
    by (cases "allocate_resources ResourceManager_init ?t") auto
  obtain pb tb okb outb where b: "allocate_resources ResourceManager_init ?b = (pb, tb, okb, outb)"
    by (cases "allocate_resources ResourceManager_init ?b") auto
  have tpu: "hardware ResourceManager_init ''TPU'' = None"
    by (simp add: ResourceManager_init_def)
  have npu: "hardware ResourceManager_init ''NPU'' = None"
    by (simp add: ResourceManager_init_def)
  have cpu: "hardware ResourceManager_init ''CPU'' =
             Some (HardwareStatus_init ''CPU_Internal'' TOTAL_CPU_CORES ''Cores'')"
    by (simp add: ResourceManager_init_def)
  have fit: "\<forall>(k, v) \<in> set (resource_request ?t).
               \<forall>hw. hardware ResourceManager_init k = Some hw \<longrightarrow> v \<le> available hw"
    by (simp add: mk_task_def tpu cpu HardwareStatus_init_def TOTAL_CPU_CORES_def)
  have nofit: "\<not> (\<forall>(k, v) \<in> set (resource_request ?b).
               \<forall>hw. hardware ResourceManager_init k = Some hw \<longrightarrow> v \<le> available hw)"
    by (simp add: mk_task_def tpu npu cpu HardwareStatus_init_def TOTAL_CPU_CORES_def)
  from unknown_kind_partial_ignore [OF h1 a] fit
  have ok: "ok" and st: "status t' = ''Running''"
    and hw: "hardware p' = reserve_each (tracked (hardware ResourceManager_init) (resource_request ?t))
                             (hardware ResourceManager_init)"
    and w: "\<forall>(k, v) \<in> set (resource_request ?t).
               hardware ResourceManager_init k = None \<longrightarrow> RM_WARNING_unknown_resource k \<in> set out"
    by blast+
  from w tpu have w': "RM_WARNING_unknown_resource ''TPU'' \<in> set out"
    by (simp add: mk_task_def)
  have c: "map_option allocated (hardware p' ''CPU'') = Some 2"
    by (simp add: hw reserve_each_def cpu tracked_def mk_task_def tpu update_usage_def
        HardwareStatus_init_def)
  have n: "hardware p' ''TPU'' = None"
    by (simp add: hw reserve_each_def tpu)
  from unknown_kind_partial_ignore [OF hb b] nofit
  have nokb: "\<not> okb" and stb: "status tb = ''Queued_Blocked''" and pb: "pb = ResourceManager_init"
    and ob: "outb = map (\<lambda>(k, v). RM_WARNING_unknown_resource k)
               (untracked (hardware ResourceManager_init)
                  (takeWhile (entry_fits (hardware ResourceManager_init)) (resource_request ?b)))"
    by blast+
  have ob': "outb = [RM_WARNING_unknown_resource ''TPU'']"
    by (simp add: ob mk_task_def untracked_def entry_fits_def tpu npu cpu HardwareStatus_init_def
        TOTAL_CPU_CORES_def)
  from a ok st c n w' b nokb stb pb ob' show ?thesis by simp
qed

subsection \<open>Hot-plug and the request derivation\<close>

text \<open>
  C2. Hot-plugging \<^verbatim>\<open>eGPU_X\<close> with capacity 250 into the pool as constructed raises the
  GPU total from 100 to 350, but the stored \<^verbatim>\<open>available\<close> field, which
  \<^verbatim>\<open>allocate_resources\<close> reads, stays at 100: a request of 150 GPU made right after the
  call is refused although nothing is allocated.
\<close>

theorem hot_plug_leaves_available_stale:
  "case add_external_hardware ''eGPU_X'' 250 ''%'' ResourceManager_init of
     Inl e \<Rightarrow> False
   | Inr p \<Rightarrow>
       map_option hw_total (hardware p ''GPU'') = Some 350 \<and>
       map_option allocated (hardware p ''GPU'') = Some 0 \<and>
       map_option available (hardware p ''GPU'') = Some 100 \<and>
       map_option available (hardware ResourceManager_init ''GPU'') = Some 100 \<and>
       fst (snd (snd (allocate_resources p (mk_task ''big'' HIGH [(''GPU'', 150)])))) = False"
  by (simp add: add_external_hardware_def ResourceManager_init_def HardwareStatus_init_def
      TOTAL_GPU_POWER_def Let_def allocate_resources_def mk_task_def)



subsection \<open>The queue\<close>

lemma sorted_reverse_descending:
  "sorted_wrt (\<lambda>a b. key b \<le> key a) (sorted_reverse key xs)"
proof -
  have "sorted (map (\<lambda>x. - key x) (sort_key (\<lambda>x. - key x) xs))" by (rule sorted_sort_key)
  then show ?thesis by (simp add: sorted_reverse_def sorted_map)
qed

lemma sorted_reverse_stable:
  "filter (\<lambda>x. key x = v) (sorted_reverse key xs) = filter (\<lambda>x. key x = v) xs"
proof -
  have "filter (\<lambda>x. - key x = - v) (sort_key (\<lambda>x. - key x) xs) = filter (\<lambda>x. - key x = - v) xs"
    by (rule sort_key_stable)
  then show ?thesis by (simp add: sorted_reverse_def)
qed

lemma mset_sorted_reverse: "mset (sorted_reverse key xs) = mset xs"
  by (simp add: sorted_reverse_def)

lemma sorted_reverse_absorb:
  "sorted_reverse key (sorted_reverse key xs @ ys) = sorted_reverse key (xs @ ys)"
  unfolding sorted_reverse_def
proof (rule properties_for_sort_key)
  let ?f = "\<lambda>x. - key x"
  show "mset (sort_key ?f (xs @ ys)) = mset (sort_key ?f xs @ ys)" by simp
  show "sorted (map ?f (sort_key ?f (xs @ ys)))" by (rule sorted_sort_key)
  fix k
  have "filter (\<lambda>x. ?f x = ?f k) (sort_key ?f (xs @ ys)) = filter (\<lambda>x. ?f x = ?f k) (xs @ ys)"
    by (rule sort_key_stable)
  moreover have "filter (\<lambda>x. ?f x = ?f k) (sort_key ?f xs) = filter (\<lambda>x. ?f x = ?f k) xs"
    by (rule sort_key_stable)
  ultimately show "filter (\<lambda>x. ?f k = ?f x) (sort_key ?f (xs @ ys)) =
                   filter (\<lambda>x. ?f k = ?f x) (sort_key ?f xs @ ys)"
    by (simp add: eq_commute)
qed

lemma submit_task_queue:
  "task_queue (submit_task t s) = sorted_reverse (queue_key s) (task_queue s @ [t])"
  by (simp add: submit_task_def queue_key_def [abs_def])

lemma submit_task_store: "store (submit_task t s) = store s"
  by (simp add: submit_task_def)

lemma queue_key_submit: "queue_key (submit_task t s) = queue_key s"
  by (simp add: queue_key_def [abs_def] submit_task_store)

lemma fold_submit_task:
  "task_queue s = sorted_reverse (queue_key s) q \<Longrightarrow>
   task_queue (fold submit_task ts s) = sorted_reverse (queue_key s) (q @ ts) \<and>
   store (fold submit_task ts s) = store s"
proof (induction ts arbitrary: s q)
  case Nil
  then show ?case by simp
next
  case (Cons t ts)
  have "task_queue (submit_task t s) = sorted_reverse (queue_key (submit_task t s)) (q @ [t])"
    by (simp add: submit_task_queue queue_key_submit Cons.prems sorted_reverse_absorb)
  from Cons.IH [OF this] show ?case
    by (simp add: queue_key_submit submit_task_store)
qed

lemma submit_from_empty:
  "task_queue (fold submit_task ts (RealTimeScheduler_init objs pool)) =
     sorted_reverse (\<lambda>t. priority_value (priority (objs t))) ts"
proof -
  let ?s = "RealTimeScheduler_init objs pool"
  have k: "queue_key ?s = (\<lambda>t. priority_value (priority (objs t)))"
    by (simp add: queue_key_def [abs_def] RealTimeScheduler_init_def)
  have "task_queue ?s = sorted_reverse (queue_key ?s) []"
    by (simp add: RealTimeScheduler_init_def sorted_reverse_def)
  from fold_submit_task [OF this, of ts] show ?thesis by (simp add: k)
qed

subsection \<open>The dispatch cycle\<close>

lemma allocate_resources_result:
  "\<exists>H out. allocate_resources p t =
     (if fits (hardware p) (resource_request t)
      then (p\<lparr>hardware := H\<rparr>, t\<lparr>status := ''Running''\<rparr>, True, out)
      else (p, t\<lparr>status := ''Queued_Blocked''\<rparr>, False, out))"
proof (cases "fits (hardware p) (resource_request t)")
  case True
  then show ?thesis
    by (auto simp: allocate_resources_def check_resources_True split: prod.splits)
next
  case False
  with allocate_resources_blocked [OF False] show ?thesis by simp
qed

lemma reap_finished_queue:
  "reap_finished e snap s = Inr s' \<Longrightarrow> task_queue s' = task_queue s"
proof (induction snap arbitrary: s)
  case Nil
  then show ?case by simp
next
  case (Cons x snap)
  obtain tid t where x: "x = (tid, t)" by (cases x)
  show ?case
  proof (cases "reap_clock e tid - start_time (store s t) > 0.5 \<or> reap_random e tid < 0.1")
    case False
    with Cons.prems have "reap_finished e snap s = Inr s'" by (simp add: x)
    from Cons.IH [OF this] show ?thesis .
  next
    case True
    let ?s1 = "s\<lparr>store := (store s)(t := (store s t)\<lparr>status := ''Finished''\<rparr>),
                  rm := free_resources (rm s) ((store s t)\<lparr>status := ''Finished''\<rparr>),
                  finished_tasks := finished_tasks s @ [t],
                  running_tasks := AList.delete tid (running_tasks s)\<rparr>"
    from Cons.prems True have "reap_finished e snap ?s1 = Inr s'"
      by (simp add: x Let_def split: if_splits)
    from Cons.IH [OF this] show ?thesis by simp
  qed
qed

lemma reap_finished_returns:
  "distinct (map fst snap) \<Longrightarrow> fst ` set snap \<subseteq> fst ` set (running_tasks s) \<Longrightarrow>
   \<exists>s'. reap_finished e snap s = Inr s'"
proof (induction snap arbitrary: s)
  case Nil
  show ?case by simp
next
  case (Cons x snap)
  obtain tid t where x: "x = (tid, t)" by (cases x)
  from Cons.prems have d: "distinct (map fst snap)" and fresh: "tid \<notin> fst ` set snap"
    and mem: "tid \<in> fst ` set (running_tasks s)" and sub: "fst ` set snap \<subseteq> fst ` set (running_tasks s)"
    by (auto simp: x)
  show ?case
  proof (cases "reap_clock e tid - start_time (store s t) > 0.5 \<or> reap_random e tid < 0.1")
    case False
    with Cons.IH [OF d sub] show ?thesis by (simp add: x)
  next
    case True
    let ?s1 = "s\<lparr>store := (store s)(t := (store s t)\<lparr>status := ''Finished''\<rparr>),
                  rm := free_resources (rm s) ((store s t)\<lparr>status := ''Finished''\<rparr>),
                  finished_tasks := finished_tasks s @ [t],
                  running_tasks := AList.delete tid (running_tasks s)\<rparr>"
    have "fst ` set snap \<subseteq> fst ` set (running_tasks ?s1)"
      using sub fresh by (force simp: AList.delete_eq)
    from Cons.IH [OF d this] True mem show ?thesis
      by (simp add: x Let_def)
  qed
qed

lemma admit_step_cap: "2 \<le> d \<Longrightarrow> admit_loop e (t # ts) d s = Inr (s, d)"
  by simp

lemma admit_step_skip:
  "d < 2 \<Longrightarrow> \<not> awaiting s t \<Longrightarrow> admit_loop e (t # ts) d s = admit_loop e ts d s"
  by (simp add: awaiting_def)

lemma admit_step_blocked:
  assumes "d < 2" "awaiting s t" "\<not> fits (hardware (rm s)) (resource_request (store s t))"
  shows "admit_loop e (t # ts) d s =
         admit_loop e ts d (s\<lparr>store := (store s)(t := (store s t)\<lparr>status := ''Queued_Blocked''\<rparr>)\<rparr>)"
proof -
  from allocate_resources_blocked [OF assms(3)] obtain out where
    "allocate_resources (rm s) (store s t) =
       (rm s, (store s t)\<lparr>status := ''Queued_Blocked''\<rparr>, False, out)" by blast
  with assms(1,2) show ?thesis by (simp add: awaiting_def)
qed

lemma admit_step_admitted:
  assumes "d < 2" "awaiting s t" "fits (hardware (rm s)) (resource_request (store s t))"
    and "t \<in> set (task_queue s)"
  shows "\<exists>H. admit_loop e (t # ts) d s =
           admit_loop e ts (d + 1)
             (s\<lparr>store := (store s)(t := (store s t)\<lparr>status := ''Running'',
                    start_time := admit_clock e (task_id (store s t))\<rparr>),
                rm := (rm s)\<lparr>hardware := H\<rparr>,
                running_tasks := AList.update (task_id (store s t)) t (running_tasks s),
                task_queue := remove1 t (task_queue s)\<rparr>)"
proof -
  from allocate_resources_result [of "rm s" "store s t"] assms(3) obtain H out where
    "allocate_resources (rm s) (store s t) =
       ((rm s)\<lparr>hardware := H\<rparr>, (store s t)\<lparr>status := ''Running''\<rparr>, True, out)" by auto
  with assms(1,2,4) show ?thesis by (auto simp: awaiting_def)
qed

lemma admit_loop_returns:
  assumes "\<forall>t \<in> set ts. awaiting s t \<longrightarrow> t \<in> set (task_queue s)"
  shows "\<exists>s' d'. admit_loop e ts d s = Inr (s', d') \<and> d \<le> d' \<and> d' \<le> max d 2 \<and>
                  length (task_queue s') + (d' - d) = length (task_queue s)"
  using assms
proof (induction ts arbitrary: d s)
  case Nil
  show ?case by simp
next
  case (Cons t ts)
  from Cons.prems have rest: "\<forall>t' \<in> set ts. awaiting s t' \<longrightarrow> t' \<in> set (task_queue s)"
    by simp
  consider (cap) "2 \<le> d" | (skip) "d < 2" "\<not> awaiting s t"
    | (blocked) "d < 2" "awaiting s t" "\<not> fits (hardware (rm s)) (resource_request (store s t))"
    | (admitted) "d < 2" "awaiting s t" "fits (hardware (rm s)) (resource_request (store s t))"
    by linarith
  then show ?case
  proof cases
    case cap
    then show ?thesis by (simp add: admit_step_cap)
  next
    case skip
    from Cons.IH [OF rest, of d] show ?thesis
      unfolding admit_step_skip [OF skip] .
  next
    case blocked
    let ?s1 = "s\<lparr>store := (store s)(t := (store s t)\<lparr>status := ''Queued_Blocked''\<rparr>)\<rparr>"
    from blocked(2) Cons.prems have "t \<in> set (task_queue s)" by simp
    with rest have "\<forall>t' \<in> set ts. awaiting ?s1 t' \<longrightarrow> t' \<in> set (task_queue ?s1)"
      by (auto simp: awaiting_def)
    from Cons.IH [OF this, of d] show ?thesis
      unfolding admit_step_blocked [OF blocked] by simp
  next
    case admitted
    from admitted(2) Cons.prems have mem: "t \<in> set (task_queue s)" by simp
    from admit_step_admitted [OF admitted mem, of e ts] obtain H where
      eq: "admit_loop e (t # ts) d s =
           admit_loop e ts (d + 1)
             (s\<lparr>store := (store s)(t := (store s t)\<lparr>status := ''Running'',
                    start_time := admit_clock e (task_id (store s t))\<rparr>),
                rm := (rm s)\<lparr>hardware := H\<rparr>,
                running_tasks := AList.update (task_id (store s t)) t (running_tasks s),
                task_queue := remove1 t (task_queue s)\<rparr>)" (is "_ = admit_loop e ts (d + 1) ?s1")
      by blast
    have "\<forall>t' \<in> set ts. awaiting ?s1 t' \<longrightarrow> t' \<in> set (task_queue ?s1)"
      using rest by (auto simp: awaiting_def)
    from Cons.IH [OF this, of "d + 1"] obtain s' d' where
      r: "admit_loop e ts (d + 1) ?s1 = Inr (s', d')" "d + 1 \<le> d'" "d' \<le> max (d + 1) 2"
         "length (task_queue s') + (d' - (d + 1)) = length (task_queue ?s1)" by blast
    from mem have "length (task_queue ?s1) + 1 = length (task_queue s)"
      by (simp add: length_remove1) (cases "task_queue s", auto)
    with r admitted(1) show ?thesis
      unfolding eq by auto
  qed
qed

lemma slice_to_subset: "set (slice_to n xs) \<subseteq> set xs"
  by (auto simp: slice_to_def dest: in_set_takeD)

text \<open>
  A dispatch cycle returns: with the keys of the running set distinct, as the keys of a
  \<^verbatim>\<open>dict\<close> are, neither \<^verbatim>\<open>del\<close> nor \<^verbatim>\<open>remove\<close> can miss. It admits at most two tasks, and
  every admitted task leaves the queue.
\<close>

lemma dispatch_cycle_returns:
  assumes "distinct (map fst (running_tasks s))"
  shows "\<exists>s' d. dispatch_cycle e n s = Inr (s', d) \<and> dispatch_tasks e n s = Inr s' \<and> d \<le> 2 \<and>
                length (task_queue s') + d = length (task_queue s)"
proof -
  from reap_finished_returns [OF assms, of s e] obtain s1 where
    s1: "reap_finished e (running_tasks s) s = Inr s1" by auto
  from reap_finished_queue [OF s1] have q: "task_queue s1 = task_queue s" .
  have "\<forall>t \<in> set (slice_to n (task_queue s1)). awaiting s1 t \<longrightarrow> t \<in> set (task_queue s1)"
    using slice_to_subset [of n "task_queue s1"] by auto
  from admit_loop_returns [OF this, of e 0] obtain s' d where
    "admit_loop e (slice_to n (task_queue s1)) 0 s1 = Inr (s', d)" "d \<le> 2"
    "length (task_queue s') + d = length (task_queue s1)" by auto
  with s1 q show ?thesis
    by (simp add: dispatch_cycle_def dispatch_tasks_def)
qed

lemmas ex_defs = submit_task_def RealTimeScheduler_init_def sorted_reverse_def
      tasks_store_def mk_task_def dispatch_tasks_def dispatch_cycle_def slice_to_def
      allocate_resources_def ResourceManager_init_def HardwareStatus_init_def update_usage_def
      calculate_request_def TOTAL_CPU_CORES_def TOTAL_GPU_POWER_def TOTAL_RAM_GB_def
      MAX_ALLOCATION_PER_TASK_def Let_def

text \<open>
  C3. \<^verbatim>\<open>submit_task\<close> leaves the queue in descending order of priority, and the tasks of
  each priority value in the order they had, the new task last; submitting \<open>ts\<close> one by one
  to a new scheduler therefore keeps the tasks of each priority in submission order.
  Example: \<open>A\<close> (high), \<open>B\<close> (critical), \<open>C\<close> (high), submitted in this order, are queued
  as \<open>B, A, C\<close>; the first dispatch cycle admits \<open>B\<close> then \<open>A\<close> (two per cycle), the second
  admits \<open>C\<close>, whatever the clock and the random draws are.
\<close>

theorem priority_major_fifo_minor:
  "sorted_wrt (\<lambda>a b. queue_key s b \<le> queue_key s a) (task_queue (submit_task t s)) \<and>
   (\<forall>v. filter (\<lambda>r. queue_key s r = v) (task_queue (submit_task t s)) =
        filter (\<lambda>r. queue_key s r = v) (task_queue s @ [t])) \<and>
   (\<forall>v. filter (\<lambda>r. priority_value (priority (objs r)) = v)
          (task_queue (fold submit_task ts (RealTimeScheduler_init objs pool))) =
        filter (\<lambda>r. priority_value (priority (objs r)) = v) ts) \<and>
   task_queue abc_submitted = [1, 0, 2] \<and>
   (\<exists>s1. dispatch_tasks e 5 abc_submitted = Inr s1 \<and>
         map snd (running_tasks s1) = [1, 0] \<and> task_queue s1 = [2] \<and>
         (\<exists>s2. dispatch_tasks e2 5 s1 = Inr s2 \<and> task_queue s2 = [] \<and>
               status (store s2 2) = ''Running'' \<and>
               map snd (running_tasks s2) =
                 filter (\<lambda>r. status (store s2 r) = ''Running'') [1, 0, 2] \<and>
               finished_tasks s2 = filter (\<lambda>r. status (store s2 r) = ''Finished'') [1, 0]))"
proof -
  have a: "sorted_wrt (\<lambda>a b. queue_key s b \<le> queue_key s a) (task_queue (submit_task t s))"
    by (simp add: submit_task_queue sorted_reverse_descending)
  have b: "\<forall>v. filter (\<lambda>r. queue_key s r = v) (task_queue (submit_task t s)) =
               filter (\<lambda>r. queue_key s r = v) (task_queue s @ [t])"
    by (simp only: submit_task_queue sorted_reverse_stable) simp
  have c: "\<forall>v. filter (\<lambda>r. priority_value (priority (objs r)) = v)
                 (task_queue (fold submit_task ts (RealTimeScheduler_init objs pool))) =
               filter (\<lambda>r. priority_value (priority (objs r)) = v) ts"
    by (simp only: submit_from_empty sorted_reverse_stable) simp
  have d: "task_queue abc_submitted = [1, 0, 2]"
    by (simp add: abc_submitted_def ex_defs)
  have f: "\<exists>s1. dispatch_tasks e 5 abc_submitted = Inr s1 \<and>
         map snd (running_tasks s1) = [1, 0] \<and> task_queue s1 = [2] \<and>
         (\<exists>s2. dispatch_tasks e2 5 s1 = Inr s2 \<and> task_queue s2 = [] \<and>
               status (store s2 2) = ''Running'' \<and>
               map snd (running_tasks s2) =
                 filter (\<lambda>r. status (store s2 r) = ''Running'') [1, 0, 2] \<and>
               finished_tasks s2 = filter (\<lambda>r. status (store s2 r) = ''Finished'') [1, 0])"
    by (simp add: abc_submitted_def ex_defs free_resources_def)
  from a b c d f show ?thesis by blast
qed

text \<open>
  C4. Admission is all or nothing: \<^verbatim>\<open>allocate_resources\<close> either reserves every requested
  amount of a tracked kind and marks the task running, or returns the pool as it was and
  marks the task blocked; it succeeds exactly when every such amount fits. In the
  admission loop a task that does not fit changes nothing but its status, and the loop
  goes on with the next task. Example: with 7 of 8 CPU allocated and two pending tasks
  asking for 2 CPU each, one dispatch cycle leaves both blocked and queued, and 7 CPU
  allocated.
\<close>

theorem all_or_nothing_admission:
  "(distinct (map fst (resource_request t)) \<longrightarrow>
     (case allocate_resources p t of
        (p', t', ok, out) \<Rightarrow>
          ok = fits (hardware p) (resource_request t) \<and>
          (if ok then status t' = ''Running'' \<and>
                      p' = p\<lparr>hardware := reserve_each (resource_request t) (hardware p)\<rparr>
           else status t' = ''Queued_Blocked'' \<and> p' = p))) \<and>
   (d < 2 \<and> awaiting s r \<and> \<not> fits (hardware (rm s)) (resource_request (store s r)) \<longrightarrow>
      admit_loop e (r # rest) d s =
      admit_loop e rest d (s\<lparr>store := (store s)(r := (store s r)\<lparr>status := ''Queued_Blocked''\<rparr>)\<rparr>)) \<and>
   map_option allocated (hardware (rm two_blocked) ''CPU'') = Some 7 \<and>
   map_option hw_total (hardware (rm two_blocked) ''CPU'') = Some 8 \<and>
   map (\<lambda>r. status (store two_blocked r)) [0, 1] = [''Pending'', ''Pending''] \<and>
   map (\<lambda>r. resource_request (store two_blocked r)) [0, 1] = [[(''CPU'', 2)], [(''CPU'', 2)]] \<and>
   (\<exists>s1. dispatch_tasks e 5 two_blocked = Inr s1 \<and> running_tasks s1 = [] \<and>
         task_queue s1 = [0, 1] \<and>
         map (\<lambda>r. status (store s1 r)) [0, 1] = [''Queued_Blocked'', ''Queued_Blocked''] \<and>
         hardware (rm s1) = hardware (rm two_blocked))"
proof -
  have a: "distinct (map fst (resource_request t)) \<longrightarrow>
     (case allocate_resources p t of
        (p', t', ok, out) \<Rightarrow>
          ok = fits (hardware p) (resource_request t) \<and>
          (if ok then status t' = ''Running'' \<and>
                      p' = p\<lparr>hardware := reserve_each (resource_request t) (hardware p)\<rparr>
           else status t' = ''Queued_Blocked'' \<and> p' = p))" (is "_ \<longrightarrow> ?C")
  proof (cases "fits (hardware p) (resource_request t)")
    case True
    show ?thesis
    proof
      assume "distinct (map fst (resource_request t))"
      from allocate_resources_admitted [OF True this] True show ?C by auto
    qed
  next
    case False
    from allocate_resources_blocked [OF False] False have ?C by auto
    then show ?thesis by blast
  qed
  have b: "d < 2 \<and> awaiting s r \<and> \<not> fits (hardware (rm s)) (resource_request (store s r)) \<longrightarrow>
      admit_loop e (r # rest) d s =
      admit_loop e rest d (s\<lparr>store := (store s)(r := (store s r)\<lparr>status := ''Queued_Blocked''\<rparr>)\<rparr>)"
    using admit_step_blocked [of d s r e rest] by blast
  have c: "map_option allocated (hardware (rm two_blocked) ''CPU'') = Some 7 \<and>
   map_option hw_total (hardware (rm two_blocked) ''CPU'') = Some 8 \<and>
   map (\<lambda>r. status (store two_blocked r)) [0, 1] = [''Pending'', ''Pending''] \<and>
   map (\<lambda>r. resource_request (store two_blocked r)) [0, 1] = [[(''CPU'', 2)], [(''CPU'', 2)]] \<and>
   (\<exists>s1. dispatch_tasks e 5 two_blocked = Inr s1 \<and> running_tasks s1 = [] \<and>
         task_queue s1 = [0, 1] \<and>
         map (\<lambda>r. status (store s1 r)) [0, 1] = [''Queued_Blocked'', ''Queued_Blocked''] \<and>
         hardware (rm s1) = hardware (rm two_blocked))"
    by (simp add: two_blocked_def cpu_nearly_full_def ex_defs)
  from a b c show ?thesis by blast
qed

theorem all_or_nothing_admission_witness:
  "(case allocate_resources cpu_nearly_full (mk_task ''P'' HIGH [(''CPU'', 2)]) of
      (p', t', ok, out) \<Rightarrow> \<not> ok \<and> status t' = ''Queued_Blocked'' \<and> p' = cpu_nearly_full) \<and>
   (case allocate_resources cpu_nearly_full (mk_task ''P'' HIGH [(''CPU'', 1)]) of
      (p', t', ok, out) \<Rightarrow>
        ok \<and> status t' = ''Running'' \<and> map_option allocated (hardware p' ''CPU'') = Some 8)"
proof -
  have nofit: "\<not> fits (hardware cpu_nearly_full) (resource_request (mk_task ''P'' HIGH [(''CPU'', 2)]))"
    by (simp add: fits_def cpu_nearly_full_def ex_defs)
  have fit: "fits (hardware cpu_nearly_full) (resource_request (mk_task ''P'' HIGH [(''CPU'', 1)]))"
    by (simp add: fits_def cpu_nearly_full_def ex_defs)
  have d2: "distinct (map fst (resource_request (mk_task ''P'' HIGH [(''CPU'', 2)])))"
    by (simp add: mk_task_def)
  have d1: "distinct (map fst (resource_request (mk_task ''P'' HIGH [(''CPU'', 1)])))"
    by (simp add: mk_task_def)
  have r: "map_option allocated
             (reserve_each (resource_request (mk_task ''P'' HIGH [(''CPU'', 1)]))
                (hardware cpu_nearly_full) ''CPU'') = Some 8"
    by (simp add: reserve_each_def cpu_nearly_full_def ex_defs)
  from all_or_nothing_admission [of "mk_task ''P'' HIGH [(''CPU'', 2)]" cpu_nearly_full] d2 nofit
  have one: "case allocate_resources cpu_nearly_full (mk_task ''P'' HIGH [(''CPU'', 2)]) of
      (p', t', ok, out) \<Rightarrow> \<not> ok \<and> status t' = ''Queued_Blocked'' \<and> p' = cpu_nearly_full"
    by (auto split: prod.splits)
  from all_or_nothing_admission [of "mk_task ''P'' HIGH [(''CPU'', 1)]" cpu_nearly_full] d1 fit r
  have two: "case allocate_resources cpu_nearly_full (mk_task ''P'' HIGH [(''CPU'', 1)]) of
      (p', t', ok, out) \<Rightarrow>
        ok \<and> status t' = ''Running'' \<and> map_option allocated (hardware p' ''CPU'') = Some 8"
    by (auto split: prod.splits)
  from one two show ?thesis by blast
qed

text \<open>
  C5. With the keys of the running set distinct, a dispatch cycle returns, admits at most
  two tasks, and the queue shrinks by the number admitted. Example: five pending tasks
  that all fit; one cycle admits exactly the first two and leaves the other three in the
  queue, still pending; the next cycle admits two more.
\<close>

theorem dispatch_admits_at_most_two:
  "(distinct (map fst (running_tasks s)) \<longrightarrow>
      (\<exists>s' d. dispatch_cycle e n s = Inr (s', d) \<and> dispatch_tasks e n s = Inr s' \<and> d \<le> 2 \<and>
              length (task_queue s') + d = length (task_queue s))) \<and>
   task_queue five_pending = [0, 1, 2, 3, 4] \<and>
   map (\<lambda>r. status (store five_pending r)) [0, 1, 2, 3, 4] =
     [''Pending'', ''Pending'', ''Pending'', ''Pending'', ''Pending''] \<and>
   (\<exists>s1. dispatch_cycle e 5 five_pending = Inr (s1, 2) \<and>
         dispatch_tasks e 5 five_pending = Inr s1 \<and>
         running_tasks s1 = [(''T0'', 0), (''T1'', 1)] \<and> task_queue s1 = [2, 3, 4] \<and>
         map (\<lambda>r. status (store s1 r)) [0, 1, 2, 3, 4] =
           [''Running'', ''Running'', ''Pending'', ''Pending'', ''Pending''] \<and>
         (\<exists>s2. dispatch_cycle e2 5 s1 = Inr (s2, 2) \<and> task_queue s2 = [4] \<and>
               map (\<lambda>r. status (store s2 r)) [2, 3, 4] = [''Running'', ''Running'', ''Pending'']))"
proof -
  have a: "distinct (map fst (running_tasks s)) \<longrightarrow>
      (\<exists>s' d. dispatch_cycle e n s = Inr (s', d) \<and> dispatch_tasks e n s = Inr s' \<and> d \<le> 2 \<and>
              length (task_queue s') + d = length (task_queue s))"
    using dispatch_cycle_returns [of s e n] by blast
  have b: "task_queue five_pending = [0, 1, 2, 3, 4] \<and>
   map (\<lambda>r. status (store five_pending r)) [0, 1, 2, 3, 4] =
     [''Pending'', ''Pending'', ''Pending'', ''Pending'', ''Pending'']"
    by (simp add: five_pending_def ex_defs)
  have c: "\<exists>s1. dispatch_cycle e 5 five_pending = Inr (s1, 2) \<and>
         dispatch_tasks e 5 five_pending = Inr s1 \<and>
         running_tasks s1 = [(''T0'', 0), (''T1'', 1)] \<and> task_queue s1 = [2, 3, 4] \<and>
         map (\<lambda>r. status (store s1 r)) [0, 1, 2, 3, 4] =
           [''Running'', ''Running'', ''Pending'', ''Pending'', ''Pending''] \<and>
         (\<exists>s2. dispatch_cycle e2 5 s1 = Inr (s2, 2) \<and> task_queue s2 = [4] \<and>
               map (\<lambda>r. status (store s2 r)) [2, 3, 4] = [''Running'', ''Running'', ''Pending''])"
    by (simp add: five_pending_def ex_defs free_resources_def)
  from a b c show ?thesis by blast
qed

theorem dispatch_admits_at_most_two_witness:
  "\<exists>s' d. dispatch_cycle quiet_env 5 five_pending = Inr (s', d) \<and>
          dispatch_tasks quiet_env 5 five_pending = Inr s' \<and> d \<le> 2 \<and>
          length (task_queue s') + d = length (task_queue five_pending)"
proof -
  have "distinct (map fst (running_tasks five_pending))"
    by (simp add: five_pending_def ex_defs)
  with dispatch_admits_at_most_two [of five_pending quiet_env 5] show ?thesis by blast
qed

subsection \<open>The allocation ceiling\<close>

lemma totals_inv_init: "totals_inv ResourceManager_init"
  using pool_inv_init by (simp add: pool_inv_def totals_inv_def)

lemma totals_inv_allocate: "totals_inv p \<Longrightarrow> totals_inv (fst (allocate_resources p t))"
  unfolding totals_inv_def
  using totals_preserved [of "hardware (fst (allocate_resources p t))" "hardware p",
      OF allocate_resources_total]
  by blast

lemma totals_inv_free: "totals_inv p \<Longrightarrow> totals_inv (free_resources p t)"
proof (cases "status t = ''Finished''")
  case False
  assume "totals_inv p"
  with False show ?thesis by (simp add: free_resources_def)
next
  case True
  assume inv: "totals_inv p"
  have h: "hardware (free_resources p t) = release_all (resource_request t) (hardware p)"
    using True by (simp add: free_resources_def)
  show ?thesis
    unfolding totals_inv_def h
    using inv totals_preserved [of "release_all (resource_request t) (hardware p)" "hardware p",
        OF release_all_total]
    unfolding totals_inv_def by blast
qed

lemma totals_inv_attach:
  assumes inv: "totals_inv p" and c: "0 \<le> capacity"
  shows "\<exists>p'. add_external_hardware name capacity unit p = Inr p' \<and> totals_inv p'"
proof -
  from inv baseline_simps(2)
  obtain g where g: "hardware p ''GPU'' = Some g" "TOTAL_GPU_POWER \<le> hw_total g"
    unfolding totals_inv_def by blast
  from inv baseline_simps(3)
  obtain r where r: "hardware p ''RAM'' = Some r" "TOTAL_RAM_GB \<le> hw_total r"
    unfolding totals_inv_def by blast
  from inv baseline_simps(1)
  obtain u where u: "hardware p ''CPU'' = Some u" "TOTAL_CPU_CORES \<le> hw_total u"
    unfolding totals_inv_def by blast
  let ?dup = "name \<in> dom (hardware p) \<or> name \<in> dom (external_hardware p)"
  consider (dup) "?dup"
    | (gpu) "\<not> ?dup" "str_contains ''GPU'' name"
    | (ram) "\<not> ?dup" "\<not> str_contains ''GPU'' name" "str_contains ''RAM'' name"
    | (other) "\<not> ?dup" "\<not> str_contains ''GPU'' name" "\<not> str_contains ''RAM'' name"
    by blast
  then show ?thesis
  proof cases
    case dup
    with inv show ?thesis by (simp add: add_external_hardware_def)
  next
    case gpu
    have "totals_inv (p\<lparr>external_hardware := (external_hardware p)(name \<mapsto>
            (HardwareStatus_init name capacity unit)\<lparr>is_external := True\<rparr>),
          hardware := (hardware p)(''GPU'' \<mapsto> g\<lparr>hw_total := hw_total g + capacity, hw_name := ''GPU_Hybrid''\<rparr>)\<rparr>)"
      unfolding totals_inv_def
      using g r u c by (auto dest!: baseline_cases)
    with gpu g show ?thesis
      by (simp add: add_external_hardware_def Let_def)
  next
    case ram
    have "totals_inv (p\<lparr>external_hardware := (external_hardware p)(name \<mapsto>
            (HardwareStatus_init name capacity unit)\<lparr>is_external := True\<rparr>),
          hardware := (hardware p)(''RAM'' \<mapsto> r\<lparr>hw_total := hw_total r + capacity, hw_name := ''RAM_Hybrid''\<rparr>)\<rparr>)"
      unfolding totals_inv_def
      using g r u c by (auto dest!: baseline_cases)
    with ram r show ?thesis
      by (simp add: add_external_hardware_def Let_def)
  next
    case other
    with inv show ?thesis
      by (simp add: add_external_hardware_def Let_def totals_inv_def)
  qed
qed

lemma totals_inv_do_call:
  "totals_inv p \<Longrightarrow> attach_ok c \<Longrightarrow> \<exists>p'. do_call c p = Inr p' \<and> totals_inv p'"
  by (cases c) (simp_all add: totals_inv_attach totals_inv_allocate totals_inv_free)

lemma totals_inv_run_calls:
  "totals_inv p \<Longrightarrow> list_all attach_ok calls \<Longrightarrow>
   \<exists>p'. run_calls calls p = Inr p' \<and> totals_inv p'"
proof (induction calls arbitrary: p)
  case Nil
  then show ?case by simp
next
  case (Cons c calls)
  from Cons.prems have "attach_ok c" and rest: "list_all attach_ok calls" by simp_all
  from totals_inv_do_call [OF Cons.prems(1) this(1)]
  obtain p1 where p1: "do_call c p = Inr p1" "totals_inv p1" by blast
  from Cons.IH [OF p1(2) rest] p1(1) show ?case by simp
qed

text \<open>
  C7. Allocation ceiling: in the pool as constructed and after any hot-plug, reserve and
  release calls (hot-plugged capacities not negative), every entry of the request derived
  from any complexity, 1 included, is at most half of the pool's total for that kind.
\<close>

theorem request_at_most_half_of_total:
  assumes "list_all attach_ok calls"
    and "run_calls calls ResourceManager_init = Inr p"
    and "(kind, amount) \<in> set (calculate_request cplx)"
  shows "\<exists>hw. hardware p kind = Some hw \<and> amount \<le> 0.5 * hw_total hw"
proof -
  from totals_inv_run_calls [OF totals_inv_init assms(1)] assms(2) have inv: "totals_inv p"
    by simp
  from calculate_request_entries [OF assms(3)]
  obtain b where b: "baseline kind = Some b" "amount \<le> 0.5 * b" by blast
  from inv b(1) obtain hw where hw: "hardware p kind = Some hw" "b \<le> hw_total hw"
    unfolding totals_inv_def by blast
  from b(2) hw(2) have "amount \<le> 0.5 * hw_total hw" by simp
  with hw(1) show ?thesis by blast
qed

theorem request_at_most_half_of_total_witness:
  "list_all attach_ok [Attach ''eGPU_X'' 250 ''%''] \<and>
   (\<exists>p. run_calls [Attach ''eGPU_X'' 250 ''%''] ResourceManager_init = Inr p \<and>
        (''GPU'', 10) \<in> set (calculate_request 1) \<and>
        (\<exists>hw. hardware p ''GPU'' = Some hw \<and> 10 \<le> 0.5 * hw_total hw))"
proof -
  have h1: "list_all attach_ok [Attach ''eGPU_X'' 250 ''%'']" by simp
  from totals_inv_run_calls [OF totals_inv_init h1]
  obtain p where p: "run_calls [Attach ''eGPU_X'' 250 ''%''] ResourceManager_init = Inr p"
    by blast
  have h3: "(''GPU'', 10) \<in> set (calculate_request 1)"
    by (simp add: calculate_request_def TOTAL_GPU_POWER_def MAX_ALLOCATION_PER_TASK_def)
  from request_at_most_half_of_total [OF h1 p h3] h1 p h3 show ?thesis by blast
qed

subsection \<open>Rounded arithmetic: evaluation and the exact instance\<close>

lemma binade_search_numeral:
  "binade_search (numeral k) x =
     (if x < 1 then binade_search (pred_numeral k) (2 * x) - 1
      else if 2 \<le> x then binade_search (pred_numeral k) (x / 2) + 1
      else 0)"
  by (simp add: numeral_eq_Suc)

lemma floor_rat_numeral: "\<lfloor>(numeral a :: rat) / numeral b\<rfloor> = numeral a div numeral b"
  using floor_divide_of_int_eq [of "numeral a" "numeral b", where ?'a = rat] by simp

lemma floor_rat_neg_numeral:
  "\<lfloor>- ((numeral a :: rat) / numeral b)\<rfloor> = - numeral a div numeral b"
  using floor_divide_of_int_eq [of "- numeral a" "numeral b", where ?'a = rat] by simp

lemmas round_double_eval = round_double_def binade_def binade_search_numeral
  round_half_even_def Let_def floor_rat_numeral

lemmas fp_eval = add_external_hardware_fp_def HardwareStatus_init_fp_def allocate_resources_fp_def
  free_resources_fp_def update_usage_fp_def mk_task_def
  ResourceManager_init_def HardwareStatus_init_def TOTAL_CPU_CORES_def TOTAL_GPU_POWER_def
  TOTAL_RAM_GB_def MAX_ALLOCATION_PER_TASK_def round_double_eval

text \<open>
  The rounding agrees with the doubles Python gives for the literals and sums used below:
  \<^verbatim>\<open>0.3\<close>, \<^verbatim>\<open>100.0 + 0.3\<close> \<open>= 100.3\<close>, the tie \<open>2\<^sup>5\<^sup>3 + 1\<close> (down to the even \<open>2\<^sup>5\<^sup>3\<close>), the tie
  \<open>2\<^sup>5\<^sup>3 + 3\<close> (up to the even \<open>2\<^sup>5\<^sup>3 + 4\<close>), and a negative number.
\<close>

lemma round_double_values:
  "round_double 0.3 = 5404319552844595 / 2 ^ 54 \<and>
   round_double (100 + 5404319552844595 / 2 ^ 54) = 7057985041019699 / 2 ^ 46 \<and>
   round_double (2 ^ 53 + 1) = 2 ^ 53 \<and>
   round_double (2 ^ 53 + 3) = 2 ^ 53 + 4 \<and>
   round_double (- (1 / 3)) = - (6004799503160661 / 2 ^ 54) \<and>
   round_double 8 = 8"
  by (simp add: round_double_eval floor_rat_neg_numeral)

text \<open>The functions of the exact model are the instance without rounding.\<close>

lemma update_usage_fp_exact: "update_usage_fp (\<lambda>x. x) = update_usage"
  by (simp add: update_usage_fp_def update_usage_def fun_eq_iff)

lemma apply_allocation_fp_exact:
  "apply_allocation_fp (\<lambda>x. x) n req acc = apply_allocation n req acc"
proof (induction req arbitrary: acc)
  case Nil
  show ?case by simp
next
  case (Cons x req)
  obtain k v where x: "x = (k, v)" by (cases x)
  obtain hwm out where acc: "acc = (hwm, out)" by (cases acc)
  show ?case
    by (cases "hwm k") (simp_all add: x acc Cons.IH update_usage_fp_exact)
qed

lemma allocate_resources_fp_exact: "allocate_resources_fp (\<lambda>x. x) = allocate_resources"
  by (simp add: allocate_resources_fp_def allocate_resources_def apply_allocation_fp_exact
      fun_eq_iff split: prod.splits)

lemma release_all_fp_exact: "release_all_fp (\<lambda>x. x) reqs hwm = release_all reqs hwm"
proof (induction reqs arbitrary: hwm)
  case Nil
  show ?case by simp
next
  case (Cons x reqs)
  obtain k v where x: "x = (k, v)" by (cases x)
  show ?case
  proof (cases "hwm k")
    case None
    then show ?thesis by (simp add: x Cons.IH)
  next
    case (Some hw)
    have "release_all_fp (\<lambda>x. x) (x # reqs) hwm =
          release_all_fp (\<lambda>x. x) reqs (hwm(k \<mapsto> update_usage (allocated hw - v) hw))"
      by (simp add: x Some update_usage_fp_exact)
    also have "\<dots> = release_all reqs (hwm(k \<mapsto> update_usage (allocated hw - v) hw))"
      by (rule Cons.IH)
    also have "\<dots> = release_all (x # reqs) hwm"
      by (simp add: x Some)
    finally show ?thesis .
  qed
qed

lemma free_resources_fp_exact: "free_resources_fp (\<lambda>x. x) = free_resources"
  by (simp add: free_resources_fp_def free_resources_def release_all_fp_exact fun_eq_iff)

lemma add_external_hardware_fp_exact:
  "add_external_hardware_fp (\<lambda>x. x) = add_external_hardware"
  by (simp add: add_external_hardware_fp_def add_external_hardware_def HardwareStatus_init_fp_def
      HardwareStatus_init_def fun_eq_iff Let_def)

lemma run_calls_fp_exact: "run_calls_fp (\<lambda>x. x) calls p = run_calls calls p"
proof (induction calls arbitrary: p)
  case Nil
  show ?case by simp
next
  case (Cons c calls)
  have "do_call_fp (\<lambda>x. x) c p = do_call c p"
    by (cases c)
       (simp_all add: add_external_hardware_fp_exact allocate_resources_fp_exact
          free_resources_fp_exact)
  then show ?case by (simp add: Cons.IH split: sum.splits)
qed

subsection \<open>The accounting invariant in doubles\<close>

text \<open>
  However the results are rounded, and whatever the amounts are, no call raises and no
  allocated amount is negative: \<^verbatim>\<open>update_usage\<close> clamps at 0.
\<close>

lemma apply_allocation_fp_nonneg:
  "(\<forall>k hw. hwm k = Some hw \<longrightarrow> 0 \<le> allocated hw) \<Longrightarrow>
   (\<forall>k hw. fst (apply_allocation_fp rnd n req (hwm, out)) k = Some hw \<longrightarrow> 0 \<le> allocated hw) \<and>
   dom (fst (apply_allocation_fp rnd n req (hwm, out))) = dom hwm"
proof (induction req arbitrary: hwm out)
  case Nil
  then show ?case by simp
next
  case (Cons x req)
  obtain k v where x: "x = (k, v)" by (cases x)
  show ?case
  proof (cases "hwm k")
    case None
    with Cons.IH [OF Cons.prems] show ?thesis by (simp add: x)
  next
    case (Some hw)
    let ?h = "hwm(k \<mapsto> update_usage_fp rnd (rnd (allocated hw + v)) hw)"
    have e: "apply_allocation_fp rnd n (x # req) (hwm, out) =
             apply_allocation_fp rnd n req (?h, out @ [RM_ALLOCATED n v (hw_unit hw) k])"
      by (simp add: x Some)
    have "\<forall>k' hw'. ?h k' = Some hw' \<longrightarrow> 0 \<le> allocated hw'"
      using Cons.prems by (auto simp: update_usage_fp_def)
    from Cons.IH [OF this, of "out @ [RM_ALLOCATED n v (hw_unit hw) k]"]
    have r: "(\<forall>k' hw'. fst (apply_allocation_fp rnd n req
                  (?h, out @ [RM_ALLOCATED n v (hw_unit hw) k])) k' = Some hw' \<longrightarrow>
                0 \<le> allocated hw') \<and>
             dom (fst (apply_allocation_fp rnd n req
                  (?h, out @ [RM_ALLOCATED n v (hw_unit hw) k]))) = dom ?h" .
    have dh: "dom ?h = dom hwm" using Some by auto
    show ?thesis unfolding e using r unfolding dh .
  qed
qed

lemma release_all_fp_nonneg:
  "(\<forall>k hw. hwm k = Some hw \<longrightarrow> 0 \<le> allocated hw) \<Longrightarrow>
   (\<forall>k hw. release_all_fp rnd reqs hwm k = Some hw \<longrightarrow> 0 \<le> allocated hw) \<and>
   dom (release_all_fp rnd reqs hwm) = dom hwm"
proof (induction reqs arbitrary: hwm)
  case Nil
  then show ?case by simp
next
  case (Cons x reqs)
  obtain k v where x: "x = (k, v)" by (cases x)
  show ?case
  proof (cases "hwm k")
    case None
    with Cons.IH [OF Cons.prems] show ?thesis by (simp add: x)
  next
    case (Some hw)
    let ?h = "hwm(k \<mapsto> update_usage_fp rnd (rnd (allocated hw - v)) hw)"
    have e: "release_all_fp rnd (x # reqs) hwm = release_all_fp rnd reqs ?h"
      by (simp add: x Some)
    have "\<forall>k' hw'. ?h k' = Some hw' \<longrightarrow> 0 \<le> allocated hw'"
      using Cons.prems by (auto simp: update_usage_fp_def)
    from Cons.IH [OF this]
    have r: "(\<forall>k' hw'. release_all_fp rnd reqs ?h k' = Some hw' \<longrightarrow> 0 \<le> allocated hw') \<and>
             dom (release_all_fp rnd reqs ?h) = dom ?h" .
    have dh: "dom ?h = dom hwm" using Some by auto
    show ?thesis unfolding e using r unfolding dh .
  qed
qed

lemma alloc_nonneg_allocate:
  "alloc_nonneg p \<Longrightarrow> alloc_nonneg (fst (allocate_resources_fp rnd p t))"
proof -
  assume inv: "alloc_nonneg p"
  obtain c req out where ch: "check_resources (hardware p) (resource_request t) [] [] = (c, req, out)"
    by (cases "check_resources (hardware p) (resource_request t) [] []") auto
  show ?thesis
  proof (cases c)
    case False
    with ch inv show ?thesis by (simp add: allocate_resources_fp_def)
  next
    case True
    from inv have "\<forall>k hw. hardware p k = Some hw \<longrightarrow> 0 \<le> allocated hw"
      by (simp add: alloc_nonneg_def)
    from apply_allocation_fp_nonneg [OF this, of rnd "task_name t" req out] inv
    have "alloc_nonneg (p\<lparr>hardware := fst (apply_allocation_fp rnd (task_name t) req (hardware p, out))\<rparr>)"
      by (simp add: alloc_nonneg_def)
    with ch True show ?thesis
      by (auto simp: allocate_resources_fp_def split: prod.splits)
  qed
qed

lemma alloc_nonneg_free: "alloc_nonneg p \<Longrightarrow> alloc_nonneg (free_resources_fp rnd p t)"
proof (cases "status t = ''Finished''")
  case False
  assume "alloc_nonneg p"
  with False show ?thesis by (simp add: free_resources_fp_def)
next
  case True
  assume inv: "alloc_nonneg p"
  then have "\<forall>k hw. hardware p k = Some hw \<longrightarrow> 0 \<le> allocated hw"
    by (simp add: alloc_nonneg_def)
  from release_all_fp_nonneg [OF this, of rnd "resource_request t"] inv True
  show ?thesis by (simp add: alloc_nonneg_def free_resources_fp_def)
qed

lemma alloc_nonneg_attach:
  assumes inv: "alloc_nonneg p"
  shows "\<exists>p'. add_external_hardware_fp rnd name capacity unit p = Inr p' \<and> alloc_nonneg p'"
proof -
  from inv obtain g r where g: "hardware p ''GPU'' = Some g" and r: "hardware p ''RAM'' = Some r"
    by (auto simp: alloc_nonneg_def)
  from inv g have g0: "0 \<le> allocated g" by (simp add: alloc_nonneg_def)
  from inv r have r0: "0 \<le> allocated r" by (simp add: alloc_nonneg_def)
  let ?dup = "name \<in> dom (hardware p) \<or> name \<in> dom (external_hardware p)"
  consider (dup) "?dup"
    | (gpu) "\<not> ?dup" "str_contains ''GPU'' name"
    | (ram) "\<not> ?dup" "\<not> str_contains ''GPU'' name" "str_contains ''RAM'' name"
    | (other) "\<not> ?dup" "\<not> str_contains ''GPU'' name" "\<not> str_contains ''RAM'' name"
    by blast
  then show ?thesis
  proof cases
    case dup
    with inv show ?thesis by (simp add: add_external_hardware_fp_def)
  next
    case gpu
    with inv g g0 show ?thesis
      by (auto simp: add_external_hardware_fp_def Let_def alloc_nonneg_def)
  next
    case ram
    with inv r r0 show ?thesis
      by (auto simp: add_external_hardware_fp_def Let_def alloc_nonneg_def)
  next
    case other
    with inv show ?thesis
      by (simp add: add_external_hardware_fp_def Let_def alloc_nonneg_def)
  qed
qed

lemma alloc_nonneg_init: "alloc_nonneg ResourceManager_init"
  by (auto simp: alloc_nonneg_def ResourceManager_init_def HardwareStatus_init_def
      split: if_splits)

lemma allocated_nonneg_under_rounding:
  "\<exists>p. run_calls_fp rnd calls ResourceManager_init = Inr p \<and>
       (\<forall>k hw. hardware p k = Some hw \<longrightarrow> 0 \<le> allocated hw)"
proof -
  have "alloc_nonneg p0 \<Longrightarrow> \<exists>p. run_calls_fp rnd calls p0 = Inr p \<and> alloc_nonneg p" for p0
  proof (induction calls arbitrary: p0)
    case Nil
    then show ?case by simp
  next
    case (Cons c calls)
    have "\<exists>p1. do_call_fp rnd c p0 = Inr p1 \<and> alloc_nonneg p1"
      using Cons.prems
      by (cases c) (simp_all add: alloc_nonneg_attach alloc_nonneg_allocate alloc_nonneg_free)
    then obtain p1 where p1: "do_call_fp rnd c p0 = Inr p1" "alloc_nonneg p1" by blast
    from Cons.IH [OF p1(2)] p1(1) show ?case by simp
  qed
  from this [OF alloc_nonneg_init] show ?thesis by (auto simp: alloc_nonneg_def)
qed


subsection \<open>Reserve and release in doubles\<close>

lemma apply_allocation_fp_hardware:
  "distinct (map fst req) \<Longrightarrow>
   fst (apply_allocation_fp rnd n req (hwm, out)) = reserve_each_fp rnd req hwm"
proof (induction req arbitrary: hwm out)
  case Nil
  then show ?case by (auto simp: reserve_each_fp_def split: option.splits)
next
  case (Cons x req)
  obtain k v where x: "x = (k, v)" by (cases x)
  from Cons.prems have k: "map_of req k = None" and d: "distinct (map fst req)"
    by (auto simp: x map_of_eq_None_iff)
  show ?case
  proof (cases "hwm k")
    case None
    with Cons.IH [OF d, of hwm out] k show ?thesis
      by (auto simp: x reserve_each_fp_def fun_eq_iff split: option.splits)
  next
    case (Some hw)
    with Cons.IH [OF d] k show ?thesis
      by (auto simp: x reserve_each_fp_def fun_eq_iff split: option.splits)
  qed
qed

lemma reserve_each_fp_tracked:
  "reserve_each_fp rnd (tracked hwm reqs) hwm = reserve_each_fp rnd reqs hwm"
  by (auto simp: reserve_each_fp_def map_of_tracked fun_eq_iff split: option.splits)

lemma allocate_resources_fp_admitted:
  assumes f: "fits (hardware p) (resource_request t)"
    and d: "distinct (map fst (resource_request t))"
  shows "\<exists>out. allocate_resources_fp rnd p t =
           (p\<lparr>hardware := reserve_each_fp rnd (resource_request t) (hardware p)\<rparr>,
            t\<lparr>status := ''Running''\<rparr>, True, out)"
proof -
  let ?req = "tracked (hardware p) (resource_request t)"
  let ?w = "map (\<lambda>(k, v). RM_WARNING_unknown_resource k) (untracked (hardware p) (resource_request t))"
  have dt: "distinct (map fst ?req)"
    using d by (simp add: tracked_def distinct_map_filter)
  obtain hwm out' where a: "apply_allocation_fp rnd (task_name t) ?req (hardware p, ?w) = (hwm, out')"
    by (cases "apply_allocation_fp rnd (task_name t) ?req (hardware p, ?w)") auto
  from apply_allocation_fp_hardware [OF dt, of rnd "task_name t" "hardware p" ?w] a
  have h: "hwm = reserve_each_fp rnd (resource_request t) (hardware p)"
    by (simp add: reserve_each_fp_tracked)
  show ?thesis
    by (simp add: allocate_resources_fp_def check_resources_fits [OF f d] a h)
qed

lemma release_all_fp_hardware:
  "distinct (map fst reqs) \<Longrightarrow> release_all_fp rnd reqs hwm = release_each_fp rnd reqs hwm"
proof (induction reqs arbitrary: hwm)
  case Nil
  show ?case by (auto simp: release_each_fp_def split: option.splits)
next
  case (Cons x reqs)
  obtain k v where x: "x = (k, v)" by (cases x)
  from Cons.prems have k: "map_of reqs k = None" and d: "distinct (map fst reqs)"
    by (auto simp: x map_of_eq_None_iff)
  show ?case
  proof (cases "hwm k")
    case None
    with Cons.IH [OF d, of hwm] k show ?thesis
      by (auto simp: x release_each_fp_def fun_eq_iff split: option.splits)
  next
    case (Some hw)
    with Cons.IH [OF d] k show ?thesis
      by (auto simp: x release_each_fp_def fun_eq_iff split: option.splits)
  qed
qed

lemma request_fp_09:
  "calculate_request_fp round_double (8106479329266893 / 9007199254740992) =
     [(''CPU'', 6485183463413515 / 2 ^ 52), (''GPU'', 5066549580791809 / 2 ^ 49),
      (''RAM'', 8106479329266893 / 2 ^ 50)]"
  unfolding calculate_request_fp_def Let_def TOTAL_CPU_CORES_def TOTAL_GPU_POWER_def
      TOTAL_RAM_GB_def MAX_ALLOCATION_PER_TASK_def
  by (simp add: round_double_eval)

lemma request_fp_07:
  "calculate_request_fp round_double (3152519739159347 / 4503599627370496) =
     [(''CPU'', 5044031582654955 / 2 ^ 52), (''GPU'', 7881299347898367 / 2 ^ 50),
      (''RAM'', 3152519739159347 / 2 ^ 49)]"
  unfolding calculate_request_fp_def Let_def TOTAL_CPU_CORES_def TOTAL_GPU_POWER_def
      TOTAL_RAM_GB_def MAX_ALLOCATION_PER_TASK_def
  by (simp add: round_double_eval)

text \<open>
  C8, as stated, fails, in two ways. A negative amount is below the availability, yet
  reserving \<open>-3\<close> CPU leaves the allocated amount at 0 (the clamp of \<^verbatim>\<open>update_usage\<close>) and
  releasing it gives 3. And with the requests of complexity \<^verbatim>\<open>0.9\<close> and \<^verbatim>\<open>0.7\<close> (the first
  two tasks of the module's demo), reserving for the first, then reserving and releasing
  for the second takes the allocated GPU from \<open>9.000000000000002\<close> to \<open>16\<close> and back to
  \<open>9\<close>, and the allocated RAM from \<open>7.2\<close> to \<open>7.200000000000001\<close>: the sums are rounded.
\<close>

theorem round_trip_counterexample:
  "map_option available (hardware ResourceManager_init ''CPU'') = Some 8 \<and>
   map_option allocated (hardware ResourceManager_init ''CPU'') = Some 0 \<and>
   fst (snd (snd (allocate_resources_fp round_double ResourceManager_init
                    (mk_task ''n'' LOW [(''CPU'', - 3)])))) \<and>
   allocated_after
     (run_calls_fp round_double
        [Reserve (mk_task ''n'' LOW [(''CPU'', - 3)]),
         Release ((mk_task ''n'' LOW [(''CPU'', - 3)])\<lparr>status := ''Finished''\<rparr>)]
        ResourceManager_init) ''CPU'' = Some 3 \<and>
   allocated_after
     (run_calls_fp round_double
        [Reserve (mk_task ''c'' CRITICAL (calculate_request_fp round_double (round_double 0.9)))]
        ResourceManager_init) ''GPU'' = Some (5066549580791809 / 2 ^ 49) \<and>
   allocated_after
     (run_calls_fp round_double
        [Reserve (mk_task ''c'' CRITICAL (calculate_request_fp round_double (round_double 0.9))),
         Reserve (mk_task ''r'' REAL_TIME (calculate_request_fp round_double (round_double 0.7)))]
        ResourceManager_init) ''GPU'' = Some 16 \<and>
   allocated_after
     (run_calls_fp round_double
        [Reserve (mk_task ''c'' CRITICAL (calculate_request_fp round_double (round_double 0.9))),
         Reserve (mk_task ''r'' REAL_TIME (calculate_request_fp round_double (round_double 0.7))),
         Release ((mk_task ''r'' REAL_TIME (calculate_request_fp round_double (round_double 0.7)))
                    \<lparr>status := ''Finished''\<rparr>)]
        ResourceManager_init) ''GPU'' = Some 9"
  by (simp add: allocated_after_def request_fp_09 request_fp_07 fp_eval)

text \<open>
  C8, amended. Whatever the rounding is: when every requested amount is not negative, fits
  the stored availability of its kind, and its sum with the allocated amount of the kind
  is not changed by rounding (the allocated amount being a value the arithmetic can
  hold), reserving for the task succeeds, and releasing for the same task once it is
  marked finished gives every kind its former allocated amount exactly. Nothing is said
  of negative amounts or of sums that are rounded.
\<close>

theorem reserve_release_round_trip:
  assumes d: "distinct (map fst (resource_request t))"
    and nn: "\<forall>(k, x) \<in> set (resource_request t). 0 \<le> x"
    and fit: "\<forall>(k, x) \<in> set (resource_request t).
                \<forall>hw. hardware p k = Some hw \<longrightarrow> x \<le> available hw"
    and a0: "\<forall>k hw. hardware p k = Some hw \<longrightarrow> 0 \<le> allocated hw \<and> rnd (allocated hw) = allocated hw"
    and exact: "\<forall>(k, x) \<in> set (resource_request t).
                  \<forall>hw. hardware p k = Some hw \<longrightarrow> rnd (allocated hw + x) = allocated hw + x"
    and alloc: "allocate_resources_fp rnd p t = (p', t', ok, out)"
  shows "ok \<and>
         (\<forall>k. map_option allocated
                 (hardware (free_resources_fp rnd p' (t'\<lparr>status := ''Finished''\<rparr>)) k) =
               map_option allocated (hardware p k))"
proof -
  from fit have f: "fits (hardware p) (resource_request t)"
    by (auto simp: fits_def split: option.splits)
  from allocate_resources_fp_admitted [OF f d, of rnd] alloc
  have ok: "ok"
    and p': "p' = p\<lparr>hardware := reserve_each_fp rnd (resource_request t) (hardware p)\<rparr>"
    and t': "t' = t\<lparr>status := ''Running''\<rparr>" by auto
  have h: "hardware (free_resources_fp rnd p' (t'\<lparr>status := ''Finished''\<rparr>)) =
           release_each_fp rnd (resource_request t)
             (reserve_each_fp rnd (resource_request t) (hardware p))"
    by (simp add: free_resources_fp_def p' t' release_all_fp_hardware [OF d])
  have "map_option allocated (release_each_fp rnd (resource_request t)
          (reserve_each_fp rnd (resource_request t) (hardware p)) k) =
        map_option allocated (hardware p k)" for k
  proof (cases "hardware p k")
    case None
    then show ?thesis by (simp add: release_each_fp_def reserve_each_fp_def)
  next
    case (Some hw)
    with a0 have a: "0 \<le> allocated hw" and ra: "rnd (allocated hw) = allocated hw" by auto
    show ?thesis
    proof (cases "map_of (resource_request t) k")
      case None
      with Some show ?thesis by (simp add: release_each_fp_def reserve_each_fp_def)
    next
      case (Some x)
      then have mem: "(k, x) \<in> set (resource_request t)" by (rule map_of_SomeD)
      with nn have x0: "0 \<le> x" by auto
      from mem exact \<open>hardware p k = Some hw\<close>
      have ex: "rnd (allocated hw + x) = allocated hw + x" by auto
      from a x0 ra ex Some \<open>hardware p k = Some hw\<close> show ?thesis
        by (simp add: release_each_fp_def reserve_each_fp_def update_usage_fp_def max_def)
    qed
  qed
  with ok h show ?thesis by simp
qed

theorem reserve_release_round_trip_witness:
  "case allocate_resources_fp round_double ResourceManager_init
          (mk_task ''a'' HIGH [(''CPU'', 2), (''RAM'', 4)]) of
     (p', t', ok, out) \<Rightarrow>
       ok \<and>
       map_option allocated (hardware p' ''CPU'') = Some 2 \<and>
       (\<forall>k. map_option allocated
               (hardware (free_resources_fp round_double p' (t'\<lparr>status := ''Finished''\<rparr>)) k) =
             map_option allocated (hardware ResourceManager_init k))"
proof -
  let ?t = "mk_task ''a'' HIGH [(''CPU'', 2), (''RAM'', 4)]"
  have h1: "distinct (map fst (resource_request ?t))" by (simp add: mk_task_def)
  have h2: "\<forall>(k, x) \<in> set (resource_request ?t). 0 \<le> x" by (simp add: mk_task_def)
  have h3: "\<forall>(k, x) \<in> set (resource_request ?t).
      \<forall>hw. hardware ResourceManager_init k = Some hw \<longrightarrow> x \<le> available hw"
    by (simp add: mk_task_def ResourceManager_init_def HardwareStatus_init_def
        TOTAL_CPU_CORES_def TOTAL_RAM_GB_def)
  have h4: "\<forall>k hw. hardware ResourceManager_init k = Some hw \<longrightarrow>
              0 \<le> allocated hw \<and> round_double (allocated hw) = allocated hw"
    by (simp add: init_allocated round_double_def)
  have h5: "\<forall>(k, x) \<in> set (resource_request ?t).
      \<forall>hw. hardware ResourceManager_init k = Some hw \<longrightarrow>
        round_double (allocated hw + x) = allocated hw + x"
    by (simp add: mk_task_def init_allocated round_double_eval)
  obtain p' t' ok out where
    a: "allocate_resources_fp round_double ResourceManager_init ?t = (p', t', ok, out)"
    by (cases "allocate_resources_fp round_double ResourceManager_init ?t") auto
  have c: "map_option allocated
             (hardware (fst (allocate_resources_fp round_double ResourceManager_init ?t)) ''CPU'') =
           Some 2"
    by (simp add: fp_eval)
  from reserve_release_round_trip [OF h1 h2 h3 h4 h5 a] a c show ?thesis
    by simp
qed

end
